theory Spec2Isabelle
  imports Main "HOL-Library.Multiset"
begin

section \<open>Python values\<close>

text \<open>
  A Python \<open>str\<close> is a sequence of Unicode code points, so it is a list of naturals here
  (an Isabelle \<open>char\<close> is only a byte). \<open>pystr\<close> turns an ASCII literal into such a string.
  \<open>bytes\<close> objects are lists of naturals below 256.
\<close>

type_synonym ustr = "nat list"

definition pystr :: "string \<Rightarrow> ustr" where
  "pystr s = map of_char s"

text \<open>
  The values \<open>response.json()\<close> can produce. \<open>PNone\<close> is Python's \<open>None\<close> (JSON \<open>null\<close>);
  a dict is the list of its items, keys distinct. JSON numbers with a fraction are not
  represented.
\<close>

datatype pyval =
    PNone
  | PBool bool
  | PInt int
  | PStr ustr
  | PList "pyval list"
  | PDict "(ustr \<times> pyval) list"

datatype error =
    ContentTypeError
  | JSONDecodeError
  | UnboundLocalError
  | KeyError
  | TypeError
  | IndexError
  | AttributeError

text \<open>Truth value testing, as \<open>if json:\<close> and \<open>if sd\<close> do it.\<close>

fun py_truthy :: "pyval \<Rightarrow> bool" where
  "py_truthy PNone = False"
| "py_truthy (PBool b) = b"
| "py_truthy (PInt i) = (i \<noteq> 0)"
| "py_truthy (PStr s) = (s \<noteq> [])"
| "py_truthy (PList xs) = (xs \<noteq> [])"
| "py_truthy (PDict d) = (d \<noteq> [])"

text \<open>\<open>v[0]\<close>: the subscription with the integer constant 0.\<close>

fun py_item0 :: "pyval \<Rightarrow> error + pyval" where
  "py_item0 (PList []) = Inl IndexError"
| "py_item0 (PList (x # xs)) = Inr x"
| "py_item0 (PStr []) = Inl IndexError"
| "py_item0 (PStr (c # cs)) = Inr (PStr [c])"
| "py_item0 (PDict d) = Inl KeyError"
| "py_item0 PNone = Inl TypeError"
| "py_item0 (PBool b) = Inl TypeError"
| "py_item0 (PInt i) = Inl TypeError"

text \<open>\<open>v['key']\<close>: the subscription with a string constant.\<close>

fun py_item :: "pyval \<Rightarrow> ustr \<Rightarrow> error + pyval" where
  "py_item (PDict d) k = (case map_of d k of None \<Rightarrow> Inl KeyError | Some v \<Rightarrow> Inr v)"
| "py_item (PList xs) k = Inl TypeError"
| "py_item (PStr s) k = Inl TypeError"
| "py_item PNone k = Inl TypeError"
| "py_item (PBool b) k = Inl TypeError"
| "py_item (PInt i) k = Inl TypeError"

text \<open>\<open>v.get('key')\<close>: only a dict has the method; a missing key gives \<open>None\<close>.\<close>

fun py_get :: "pyval \<Rightarrow> ustr \<Rightarrow> error + pyval" where
  "py_get (PDict d) k = (case map_of d k of None \<Rightarrow> Inr PNone | Some v \<Rightarrow> Inr v)"
| "py_get (PList xs) k = Inl AttributeError"
| "py_get (PStr s) k = Inl AttributeError"
| "py_get PNone k = Inl AttributeError"
| "py_get (PBool b) k = Inl AttributeError"
| "py_get (PInt i) k = Inl AttributeError"

text \<open>\<open>len(v)\<close> and the items \<open>for x in v\<close> visits.\<close>

fun py_len :: "pyval \<Rightarrow> error + int" where
  "py_len (PList xs) = Inr (int (length xs))"
| "py_len (PStr s) = Inr (int (length s))"
| "py_len (PDict d) = Inr (int (length d))"
| "py_len PNone = Inl TypeError"
| "py_len (PBool b) = Inl TypeError"
| "py_len (PInt i) = Inl TypeError"

fun py_iter :: "pyval \<Rightarrow> error + pyval list" where
  "py_iter (PList xs) = Inr xs"
| "py_iter (PStr s) = Inr (map (\<lambda>c. PStr [c]) s)"
| "py_iter (PDict d) = Inr (map (\<lambda>kv. PStr (fst kv)) d)"
| "py_iter PNone = Inl TypeError"
| "py_iter (PBool b) = Inl TypeError"
| "py_iter (PInt i) = Inl TypeError"

section \<open>The remote service, the session and the local machine\<close>

text \<open>
  The four endpoints of \<open>safe-route.ru\<close> the script requests. A request carries the value
  the f-string interpolates into the URL.
\<close>

datatype request =
    Claims int
  | SpecialProjects pyval
  | SpecialProjectDownload pyval
  | Docstore pyval

text \<open>
  What the script reads of an \<open>aiohttp\<close> response: \<open>content\<close> is the body as the stream
  \<open>response.content\<close> delivers it, \<open>json_body\<close> is what \<open>response.json()\<close> returns or
  raises for that body, \<open>text_body\<close> what \<open>response.text()\<close> returns. \<open>headers\<close> is keyed by
  the header names as \<open>headers.get\<close> looks them up.
\<close>

record response =
  status :: int
  headers :: "(string \<times> ustr) list"
  content :: "nat list"
  json_body :: "error + pyval"
  text_body :: ustr
  resp_url :: ustr
  history :: "(ustr \<times> int) list"

text \<open>
  The session answers a request with the service's response (the service is read-only and
  answers the same request the same way); its cookie jar is read by the diagnostic log only.
  Outside the calls the script guards itself, the library is taken to succeed: every request
  gets a response, \<open>response.text()\<close> and the cookie lookup return, and the directory and
  the files under \<open>downloads\<close> can be made and written.
\<close>

type_synonym cookies = "(ustr \<times> ustr) list"

record session =
  http_get :: "request \<Rightarrow> response"
  cookie_jar :: "request \<Rightarrow> cookies"

text \<open>The lines the script prints, one constructor per \<open>print\<close> call, with the values formatted.\<close>

datatype out =
    InfoRequestLog cookies int "(string \<times> ustr) list" ustr ustr
  | RedirectLine ustr int
  | ErrorLoading int
  | AlreadyExists ustr
  | SuccessfulDownloads nat nat int
  | SuccessfulRequests nat nat int
  | DocumentsContained nat int
  | ReceivedAllTravelSheets int
  | StartParsing int
  | FinishParsing int

text \<open>
  The state the script acts on: whether the directory \<open>downloads\<close> exists, the entries in it
  with their bytes, the files opened for writing so far, the requests sent so far and the
  lines printed so far.
\<close>

record world =
  dir_exists :: bool
  files :: "ustr \<rightharpoonup> nat list"
  opened :: "ustr list"
  sent :: "request list"
  stdout :: "out list"

definition session_get :: "session \<Rightarrow> request \<Rightarrow> world \<Rightarrow> world \<times> response" where
  "session_get s rq w = (w\<lparr>sent := sent w @ [rq]\<rparr>, http_get s rq)"

definition print :: "out \<Rightarrow> world \<Rightarrow> world" where
  "print line w = w\<lparr>stdout := stdout w @ [line]\<rparr>"

section \<open>info_request_log\<close>

definition info_request_log :: "request \<Rightarrow> session \<Rightarrow> response \<Rightarrow> world \<Rightarrow> world" where
  "info_request_log url s r w =
     (let msg = InfoRequestLog (cookie_jar s url) (status r) (headers r) (text_body r) (resp_url r);
          w1 = print msg w
      in fold (\<lambda>redirect. print (RedirectLine (fst redirect) (snd redirect))) (history r) w1)"

section \<open>get_special_project_file_uuid\<close>

text \<open>The body of the \<open>try\<close>: \<open>json[0].get('special_project_uuid')\<close>.\<close>

definition first_record_field :: "pyval \<Rightarrow> error + pyval" where
  "first_record_field json =
     (case py_item0 json of
        Inl e \<Rightarrow> Inl e
      | Inr first \<Rightarrow> py_get first (pystr ''special_project_uuid''))"

definition get_special_project_file_uuid ::
  "session \<Rightarrow> pyval \<Rightarrow> world \<Rightarrow> world \<times> (error + pyval)" where
  "get_special_project_file_uuid s claim_uuid w =
     (let (w1, r) = session_get s (SpecialProjects claim_uuid) w in
      case json_body r of
        Inl e \<Rightarrow> (w1, Inl e)
      | Inr json \<Rightarrow>
          if py_truthy json then
            (case first_record_field json of
               Inl e \<Rightarrow> (w1, Inr PNone)
             | Inr special_project_file_uuid \<Rightarrow> (w1, Inr special_project_file_uuid))
          else (w1, Inr PNone))"

section \<open>Text helpers: substring test, regular expressions, unquote\<close>

text \<open>\<open>sub in s\<close> on strings.\<close>

definition starts_with :: "ustr \<Rightarrow> ustr \<Rightarrow> bool" where
  "starts_with p s = (take (length p) s = p)"

fun py_in :: "ustr \<Rightarrow> ustr \<Rightarrow> bool" where
  "py_in sub [] = (sub = [])"
| "py_in sub (c # cs) = (starts_with sub (c # cs) \<or> py_in sub cs)"

text \<open>
  \<open>re.findall('filename="(.+)"', s)\<close>. The dot matches every character but the newline and
  \<open>.+\<close> is greedy: from a position where \<open>filename="\<close> starts, the group takes the longest
  non-empty stretch of the line that is followed by a double quote. \<open>upto_last_quote\<close> cuts a
  stretch before its last double quote. The search resumes after the end of a match.
\<close>

definition dquote :: nat where "dquote = 34"
definition newline :: nat where "newline = 10"
definition underscore :: nat where "underscore = 95"

fun upto_last_quote :: "ustr \<Rightarrow> ustr option" where
  "upto_last_quote [] = None"
| "upto_last_quote (c # cs) =
     (case upto_last_quote cs of
        Some t \<Rightarrow> Some (c # t)
      | None \<Rightarrow> if c = dquote then Some [] else None)"

definition match_filename_at :: "ustr \<Rightarrow> ustr option" where
  "match_filename_at s =
     (if starts_with (pystr ''filename='' @ [dquote]) s then
        (case upto_last_quote (takeWhile (\<lambda>c. c \<noteq> newline) (drop 10 s)) of
           None \<Rightarrow> None
         | Some g \<Rightarrow> if g = [] then None else Some g)
      else None)"

function findall_filename :: "ustr \<Rightarrow> ustr list" where
  "findall_filename s =
     (if s = [] then []
      else case match_filename_at s of
             Some g \<Rightarrow> g # findall_filename (drop (10 + length g + 1) s)
           | None \<Rightarrow> findall_filename (tl s))"
  by pat_completeness auto
termination
  by (relation "measure length") auto

declare findall_filename.simps [simp del]

text \<open>
  \<open>urllib.parse.unquote(s, encoding='utf-8')\<close>: a string without \<open>%\<close> is returned as it
  is; otherwise every stretch of ASCII characters has its \<open>%XX\<close> escapes turned into bytes
  and is decoded as UTF-8 with \<open>errors='replace'\<close>, and the other characters stay.
\<close>

definition hexval :: "nat \<Rightarrow> nat option" where
  "hexval c =
     (if 48 \<le> c \<and> c \<le> 57 then Some (c - 48)
      else if 65 \<le> c \<and> c \<le> 70 then Some (c - 55)
      else if 97 \<le> c \<and> c \<le> 102 then Some (c - 87)
      else None)"

fun unquote_to_bytes :: "ustr \<Rightarrow> nat list" where
  "unquote_to_bytes [] = []"
| "unquote_to_bytes (c # cs) =
     (if c = 37 then
        (case cs of
           h1 # h2 # rest \<Rightarrow>
             (case (hexval h1, hexval h2) of
                (Some a, Some b) \<Rightarrow> (16 * a + b) # unquote_to_bytes rest
              | _ \<Rightarrow> 37 # unquote_to_bytes cs)
         | _ \<Rightarrow> 37 # unquote_to_bytes cs)
      else c # unquote_to_bytes cs)"

text \<open>
  The UTF-8 codec with \<open>errors='replace'\<close>: a well-formed sequence gives its code point, and
  each longest ill-formed stretch (a byte that cannot start a sequence, or the valid start
  of a sequence that the next byte does not continue) gives one U+FFFD.
\<close>

definition cont_byte :: "nat \<Rightarrow> bool" where
  "cont_byte b = (128 \<le> b \<and> b \<le> 191)"

definition second_byte_ok :: "nat \<Rightarrow> nat \<Rightarrow> bool" where
  "second_byte_ok lead b =
     (if lead = 224 then 160 \<le> b \<and> b \<le> 191
      else if lead = 237 then 128 \<le> b \<and> b \<le> 159
      else if lead = 240 then 144 \<le> b \<and> b \<le> 191
      else if lead = 244 then 128 \<le> b \<and> b \<le> 143
      else cont_byte b)"

fun utf8_decode :: "nat list \<Rightarrow> ustr" where
  "utf8_decode [] = []"
| "utf8_decode (b # bs) =
     (if b < 128 then b # utf8_decode bs
      else if 194 \<le> b \<and> b \<le> 223 then
        (case bs of
           [] \<Rightarrow> [65533]
         | c1 # r1 \<Rightarrow>
             if cont_byte c1 then ((b - 192) * 64 + (c1 - 128)) # utf8_decode r1
             else 65533 # utf8_decode bs)
      else if 224 \<le> b \<and> b \<le> 239 then
        (case bs of
           [] \<Rightarrow> [65533]
         | c1 # r1 \<Rightarrow>
             if second_byte_ok b c1 then
               (case r1 of
                  [] \<Rightarrow> [65533]
                | c2 # r2 \<Rightarrow>
                    if cont_byte c2
                    then ((b - 224) * 4096 + (c1 - 128) * 64 + (c2 - 128)) # utf8_decode r2
                    else 65533 # utf8_decode r1)
             else 65533 # utf8_decode bs)
      else if 240 \<le> b \<and> b \<le> 244 then
        (case bs of
           [] \<Rightarrow> [65533]
         | c1 # r1 \<Rightarrow>
             if second_byte_ok b c1 then
               (case r1 of
                  [] \<Rightarrow> [65533]
                | c2 # r2 \<Rightarrow>
                    if cont_byte c2 then
                      (case r2 of
                         [] \<Rightarrow> [65533]
                       | c3 # r3 \<Rightarrow>
                           if cont_byte c3
                           then ((b - 240) * 262144 + (c1 - 128) * 4096
                                 + (c2 - 128) * 64 + (c3 - 128)) # utf8_decode r3
                           else 65533 # utf8_decode r2)
                    else 65533 # utf8_decode r1)
             else 65533 # utf8_decode bs)
      else 65533 # utf8_decode bs)"

function unquote_runs :: "ustr \<Rightarrow> ustr" where
  "unquote_runs s =
     (if s = [] then []
      else if hd s < 128 then
        utf8_decode (unquote_to_bytes (takeWhile (\<lambda>c. c < 128) s))
          @ unquote_runs (dropWhile (\<lambda>c. c < 128) s)
      else takeWhile (\<lambda>c. \<not> c < 128) s @ unquote_runs (dropWhile (\<lambda>c. \<not> c < 128) s))"
  by pat_completeness auto
termination
proof (relation "measure length")
  show "wf (measure length)" by simp
next
  fix s :: ustr
  assume "s \<noteq> []" "hd s < 128"
  then have "length (dropWhile (\<lambda>c. c < 128) s) < length s"
    by (cases s) (auto simp: le_imp_less_Suc length_dropWhile_le)
  then show "(dropWhile (\<lambda>c. c < 128) s, s) \<in> measure length" by simp
next
  fix s :: ustr
  assume "s \<noteq> []" "\<not> hd s < 128"
  then have "length (dropWhile (\<lambda>c. \<not> c < 128) s) < length s"
    by (cases s) (auto simp: le_imp_less_Suc length_dropWhile_le)
  then show "(dropWhile (\<lambda>c. \<not> c < 128) s, s) \<in> measure length" by simp
qed

declare unquote_runs.simps [simp del]

definition unquote :: "ustr \<Rightarrow> ustr" where
  "unquote s = (if 37 \<notin> set s then s else unquote_runs s)"

text \<open>
  \<open>re.sub(r'[^\w\d.-]', '_', s)\<close>. On \<open>str\<close> patterns \<open>\w\<close> and \<open>\d\<close> are Unicode classes:
  \<open>\w\<close> is every alphanumeric character of any script and the underscore, \<open>\d\<close> every
  decimal digit. Below 128 these are \<open>[A-Za-z0-9_]\<close> and \<open>[0-9]\<close>; above, they are read from
  the Unicode character database, which is a parameter here.
\<close>

record unicode_db =
  uni_alnum :: "nat \<Rightarrow> bool"
  uni_decimal :: "nat \<Rightarrow> bool"

definition ascii_alnum :: "nat \<Rightarrow> bool" where
  "ascii_alnum c = ((48 \<le> c \<and> c \<le> 57) \<or> (65 \<le> c \<and> c \<le> 90) \<or> (97 \<le> c \<and> c \<le> 122))"

definition re_word :: "unicode_db \<Rightarrow> nat \<Rightarrow> bool" where
  "re_word db c = (if c < 128 then ascii_alnum c \<or> c = underscore else uni_alnum db c)"

definition re_digit :: "unicode_db \<Rightarrow> nat \<Rightarrow> bool" where
  "re_digit db c = (if c < 128 then 48 \<le> c \<and> c \<le> 57 else uni_decimal db c)"

definition kept_char :: "unicode_db \<Rightarrow> nat \<Rightarrow> bool" where
  "kept_char db c = (re_word db c \<or> re_digit db c \<or> c = 46 \<or> c = 45)"

definition sub_forbidden :: "unicode_db \<Rightarrow> ustr \<Rightarrow> ustr" where
  "sub_forbidden db s = map (\<lambda>c. if kept_char db c then c else underscore) s"

text \<open>
  \<open>re.sub(r'^"|"$', '', s)\<close>: a double quote at the start is removed, and one at the end,
  where \<open>$\<close> also matches just before a final newline.
\<close>

definition sub_end_quote :: "ustr \<Rightarrow> ustr" where
  "sub_end_quote s =
     (if s \<noteq> [] \<and> last s = dquote then butlast s
      else if 2 \<le> length s \<and> last s = newline \<and> last (butlast s) = dquote
      then butlast (butlast s) @ [newline]
      else s)"

definition sub_outer_quotes :: "ustr \<Rightarrow> ustr" where
  "sub_outer_quotes s =
     (case s of
        [] \<Rightarrow> []
      | c # cs \<Rightarrow> if c = dquote then sub_end_quote cs else sub_end_quote s)"

section \<open>get_filename_from_response_headers\<close>

definition get_filename_from_response_headers ::
  "unicode_db \<Rightarrow> session \<Rightarrow> pyval \<Rightarrow> world \<Rightarrow> world \<times> ustr option" where
  "get_filename_from_response_headers db s store_uuid w =
     (let (w1, r) = session_get s (Docstore store_uuid) w in
      if status r = 200 then
        (case map_of (headers r) ''Content-Disposition'' of
           None \<Rightarrow> (w1, None)
         | Some content_disposition \<Rightarrow>
             if content_disposition \<noteq> [] \<and> py_in (pystr ''filename'') content_disposition then
               (case findall_filename content_disposition of
                  [] \<Rightarrow> (w1, None)
                | g # gs \<Rightarrow>
                    (let filename = unquote g;
                         filename = sub_forbidden db filename
                     in (w1, Some (sub_outer_quotes filename))))
             else (w1, None))
      else (w1, None))"

section \<open>download_pdf\<close>

text \<open>
  \<open>response.json()\<close> reads the body to its end before decoding it, so the stream
  \<open>response.content\<close> is exhausted afterwards; \<open>content.read(n)\<close> hands out the next
  \<open>n\<close> bytes of the stream, fewer at its end.
\<close>

definition response_json :: "response \<Rightarrow> nat list \<Rightarrow> (error + pyval) \<times> nat list" where
  "response_json r stream = (json_body r, [])"

definition content_read :: "nat \<Rightarrow> nat list \<Rightarrow> nat list \<times> nat list" where
  "content_read n stream = (take n stream, drop n stream)"

text \<open>
  The local machine: \<open>os.makedirs(dir_name, exist_ok=True)\<close>, \<open>os.path.exists\<close> on a path
  inside \<open>downloads\<close> (the names \<open>.\<close> and \<open>..\<close> always exist there), \<open>open(path, 'wb')\<close>,
  which creates the file or empties it, and \<open>f.write(chunk)\<close>.
\<close>

definition makedirs :: "world \<Rightarrow> world" where
  "makedirs w = w\<lparr>dir_exists := True\<rparr>"

definition path_exists :: "world \<Rightarrow> ustr \<Rightarrow> bool" where
  "path_exists w filename =
     (files w filename \<noteq> None \<or> filename = pystr ''.'' \<or> filename = pystr ''..'')"

definition open_wb :: "ustr \<Rightarrow> world \<Rightarrow> world" where
  "open_wb filename w =
     w\<lparr>files := (files w)(filename \<mapsto> []), opened := opened w @ [filename]\<rparr>"

definition file_write :: "ustr \<Rightarrow> nat list \<Rightarrow> world \<Rightarrow> world" where
  "file_write filename chunk w =
     w\<lparr>files := (files w)(filename \<mapsto>
          (case files w filename of None \<Rightarrow> [] | Some old \<Rightarrow> old) @ chunk)\<rparr>"

function write_chunks :: "ustr \<Rightarrow> nat list \<Rightarrow> world \<Rightarrow> world" where
  "write_chunks filename stream w =
     (let (chunk, stream1) = content_read 1024 stream in
      if chunk = [] then w
      else write_chunks filename stream1 (file_write filename chunk w))"
  by pat_completeness auto
termination
  by (relation "measure (\<lambda>(filename, stream, w). length stream)")
     (auto simp: content_read_def)

declare write_chunks.simps [simp del]

definition download_pdf ::
  "unicode_db \<Rightarrow> session \<Rightarrow> pyval \<Rightarrow> world \<Rightarrow> world \<times> (error + pyval)" where
  "download_pdf db s file_uuid w =
     (let url = SpecialProjectDownload file_uuid;
          (w1, r) = session_get s url w
      in
      if status r = 200 then
        (case response_json r (content r) of
           (Inl e, stream) \<Rightarrow> (w1, Inl e)
         | (Inr json, stream) \<Rightarrow>
             (case py_item json (pystr ''store_uuid'') of
                Inl e \<Rightarrow> (w1, Inl e)
              | Inr store_uuid \<Rightarrow>
                  (let (w2, filename) = get_filename_from_response_headers db s store_uuid w1 in
                   case filename of
                     None \<Rightarrow> (w2, Inr PNone)
                   | Some save_name \<Rightarrow>
                       (let w3 = makedirs w2 in
                        if path_exists w3 save_name
                        then (print (AlreadyExists save_name) w3, Inr PNone)
                        else (write_chunks save_name stream (open_wb save_name w3),
                              Inr (PBool True))))))
      else
        (let w2 = print (ErrorLoading (status r)) w1
         in (info_request_log url s r w2, Inr PNone)))"

section \<open>async_requester\<close>

text \<open>
  A task is a coroutine started on the event loop: it acts on the world and ends with a
  result or an exception. \<open>asyncio.gather\<close> lets the tasks run and hands back their results
  in the order of its arguments. The order in which the loop completes the tasks is the
  schedule: task numbers in completion order; a number that names no task or a task already
  done is passed over, and the tasks the schedule leaves out complete after it, in order.
  The first exception ends the wait. Each task runs as one step: in \<open>download_pdf\<close> there is
  no \<open>await\<close> between the test for the file and its creation.
\<close>

type_synonym ('s, 'r) task = "'s \<Rightarrow> 's \<times> (error + 'r)"

fun run_tasks ::
  "nat list \<Rightarrow> ('s, 'r) task list \<Rightarrow> (nat \<times> 'r) list \<Rightarrow> 's \<Rightarrow> 's \<times> (error + (nat \<times> 'r) list)" where
  "run_tasks [] tasks finished w = (w, Inr finished)"
| "run_tasks (i # schedule) tasks finished w =
     (if i < length tasks \<and> i \<notin> fst ` set finished then
        (case (tasks ! i) w of
           (w1, Inl e) \<Rightarrow> (w1, Inl e)
         | (w1, Inr r) \<Rightarrow> run_tasks schedule tasks (finished @ [(i, r)]) w1)
      else run_tasks schedule tasks finished w)"

definition gather :: "nat list \<Rightarrow> ('s, 'r) task list \<Rightarrow> 's \<Rightarrow> 's \<times> (error + 'r list)" where
  "gather schedule tasks w =
     (case run_tasks (schedule @ [0..<length tasks]) tasks [] w of
        (w1, Inl e) \<Rightarrow> (w1, Inl e)
      | (w1, Inr finished) \<Rightarrow> (w1, Inr (map snd (sort_key fst finished))))"

text \<open>
  The order in which the tasks really complete under a schedule, and what a task does to the
  world.
\<close>

fun fresh :: "nat list \<Rightarrow> nat list \<Rightarrow> nat \<Rightarrow> nat list" where
  "fresh [] seen n = []"
| "fresh (i # schedule) seen n =
     (if i < n \<and> i \<notin> set seen then i # fresh schedule (seen @ [i]) n
      else fresh schedule seen n)"

definition completion_order :: "nat list \<Rightarrow> nat \<Rightarrow> nat list" where
  "completion_order schedule n = fresh (schedule @ [0..<n]) [] n"

definition effect :: "('s, 'r) task \<Rightarrow> 's \<Rightarrow> 's" where
  "effect t w = fst (t w)"

fun outcomes :: "nat list \<Rightarrow> ('s, 'r) task list \<Rightarrow> 's \<Rightarrow> (nat \<times> (error + 'r)) list" where
  "outcomes [] tasks w = []"
| "outcomes (i # order) tasks w = (i, snd ((tasks ! i) w)) # outcomes order tasks (effect (tasks ! i) w)"

definition async_requester ::
  "nat list \<Rightarrow> 'c \<Rightarrow> 'a list \<Rightarrow> ('c \<Rightarrow> 'a \<Rightarrow> ('s, 'r) task) \<Rightarrow> 's \<Rightarrow> 's \<times> (error + 'r list)" where
  "async_requester schedule s arg_list callback_func w =
     (let tasks = map (\<lambda>arg. callback_func s arg) arg_list
      in gather schedule tasks w)"

section \<open>download_all_files\<close>

definition download_all_files ::
  "unicode_db \<Rightarrow> nat list \<Rightarrow> session \<Rightarrow> pyval list \<Rightarrow> int \<Rightarrow> world \<Rightarrow> world \<times> (error + unit)" where
  "download_all_files db schedule s file_uuids number w =
     (case async_requester schedule s file_uuids (download_pdf db) w of
        (w1, Inl e) \<Rightarrow> (w1, Inl e)
      | (w1, Inr responses) \<Rightarrow>
          (let successful_downloads = filter py_truthy responses
           in (print (SuccessfulDownloads (length successful_downloads) (length file_uuids) number) w1,
               Inr ())))"

section \<open>get_all_file_uuids\<close>

text \<open>
  \<open>list(set(responses))\<close>. A list or a dict cannot be put in a set; equal values are kept
  once, where \<open>True\<close> equals 1 and \<open>False\<close> equals 0. The order in which a set is iterated
  comes from the hashes of its elements and is not specified: it is given here by a rank of
  the values, a parameter, so that every order of the distinct values is covered.
\<close>

fun py_hashable :: "pyval \<Rightarrow> bool" where
  "py_hashable (PList xs) = False"
| "py_hashable (PDict d) = False"
| "py_hashable v = True"

fun py_eq :: "pyval \<Rightarrow> pyval \<Rightarrow> bool" where
  "py_eq (PBool b) (PInt i) = (i = (if b then 1 else 0))"
| "py_eq (PInt i) (PBool b) = (i = (if b then 1 else 0))"
| "py_eq a b = (a = b)"

fun py_dedup :: "pyval list \<Rightarrow> pyval list" where
  "py_dedup [] = []"
| "py_dedup (x # xs) = x # py_dedup (filter (\<lambda>y. \<not> py_eq x y) xs)"

definition list_of_set :: "(pyval \<Rightarrow> nat) \<Rightarrow> pyval list \<Rightarrow> error + pyval list" where
  "list_of_set rank xs =
     (if list_all py_hashable xs then Inr (sort_key rank (py_dedup xs)) else Inl TypeError)"

definition get_all_file_uuids ::
  "(pyval \<Rightarrow> nat) \<Rightarrow> nat list \<Rightarrow> session \<Rightarrow> pyval list \<Rightarrow> int \<Rightarrow> world
     \<Rightarrow> world \<times> (error + pyval list)" where
  "get_all_file_uuids rank schedule s claim_uuids number w =
     (case async_requester schedule s claim_uuids get_special_project_file_uuid w of
        (w1, Inl e) \<Rightarrow> (w1, Inl e)
      | (w1, Inr responses) \<Rightarrow>
          (let w2 = print (SuccessfulRequests (length responses) (length claim_uuids) number) w1 in
           case list_of_set rank responses of
             Inl e \<Rightarrow> (w2, Inl e)
           | Inr file_uuids \<Rightarrow>
               if file_uuids = [] then (w2, Inl IndexError)
               else
                 (let file_uuids = (if last file_uuids = PNone then butlast file_uuids
                                    else file_uuids)
                  in (print (DocumentsContained (length file_uuids) number) w2,
                      Inr file_uuids))))"

section \<open>get_all_travel_sheets_uuids\<close>

definition default_limit :: int where
  "default_limit = 1000"

fun collect_uuids :: "pyval list \<Rightarrow> pyval list \<Rightarrow> error + pyval list" where
  "collect_uuids [] uuids = Inr uuids"
| "collect_uuids (travel_sheet # rest) uuids =
     (case py_get travel_sheet (pystr ''uuid'') of
        Inl e \<Rightarrow> Inl e
      | Inr uuid \<Rightarrow> collect_uuids rest (if uuid \<noteq> PNone then uuids @ [uuid] else uuids))"

text \<open>
  The body of the function after the response has arrived, up to the recursive call: either
  the function is over, with its world and its result or exception, or the page was full and
  the fetch starts again from the world reached. When \<open>response.json()\<close> raises
  \<open>ContentTypeError\<close> the diagnostic log is printed and \<open>json\<close> stays unbound, so the next
  line raises \<open>UnboundLocalError\<close>; any other exception of \<open>response.json()\<close> is not caught.
\<close>

datatype 'a page_outcome = Done world "error + 'a" | Refetch world

definition read_page ::
  "session \<Rightarrow> int \<Rightarrow> int \<Rightarrow> world \<Rightarrow> pyval list page_outcome" where
  "read_page s number limit w =
     (let url = Claims limit;
          (w1, r) = session_get s url w
      in
      case json_body r of
        Inl e \<Rightarrow>
          if e = ContentTypeError
          then Done (info_request_log url s r w1) (Inl UnboundLocalError)
          else Done w1 (Inl e)
      | Inr json \<Rightarrow>
          (case py_item json (pystr ''data'') of
             Inl e \<Rightarrow> Done w1 (Inl e)
           | Inr travel_sheets \<Rightarrow>
               (case py_len travel_sheets of
                  Inl e \<Rightarrow> Done w1 (Inl e)
                | Inr n \<Rightarrow>
                    if n = limit then Refetch w1
                    else
                      (case py_iter travel_sheets of
                         Inl e \<Rightarrow> Done w1 (Inl e)
                       | Inr items \<Rightarrow>
                           (case collect_uuids items [] of
                              Inl e \<Rightarrow> Done w1 (Inl e)
                            | Inr uuids \<Rightarrow>
                                Done (print (ReceivedAllTravelSheets number) w1) (Inr uuids))))))"

text \<open>
  The recursive call is \<open>get_all_travel_sheets_uuids(session, limit)\<close> after \<open>limit *= 2\<close>:
  the doubled limit is bound to the second parameter, \<open>number\<close>, and \<open>limit\<close> takes its
  default again. A fetch that never ends has the value \<open>None\<close>.
\<close>

partial_function (option) get_all_travel_sheets_uuids ::
  "session \<Rightarrow> int \<Rightarrow> int \<Rightarrow> world \<Rightarrow> (world \<times> (error + pyval list)) option" where
  "get_all_travel_sheets_uuids s number limit w =
     (case read_page s number limit w of
        Done w1 res \<Rightarrow> Some (w1, res)
      | Refetch w1 \<Rightarrow> get_all_travel_sheets_uuids s (limit * 2) default_limit w1)"

declare get_all_travel_sheets_uuids.simps [code]

section \<open>start_parser\<close>

definition start_parser ::
  "unicode_db \<Rightarrow> (pyval \<Rightarrow> nat) \<Rightarrow> nat list \<Rightarrow> nat list \<Rightarrow> session \<Rightarrow> int \<Rightarrow> world
     \<Rightarrow> (world \<times> (error + unit)) option" where
  "start_parser db rank schedule1 schedule2 s number w =
     (case get_all_travel_sheets_uuids s number default_limit (print (StartParsing number) w) of
        None \<Rightarrow> None
      | Some (w1, Inl e) \<Rightarrow> Some (w1, Inl e)
      | Some (w1, Inr uuids) \<Rightarrow>
          (case get_all_file_uuids rank schedule1 s uuids number w1 of
             (w2, Inl e) \<Rightarrow> Some (w2, Inl e)
           | (w2, Inr file_uuids) \<Rightarrow>
               (case download_all_files db schedule2 s file_uuids number w2 of
                  (w3, Inl e) \<Rightarrow> Some (w3, Inl e)
                | (w3, Inr u) \<Rightarrow> Some (print (FinishParsing number) w3, Inr ()))))"

section \<open>An example service\<close>

text \<open>
  A small service for concrete runs. The listing has three travel sheets \<open>u1\<close>, \<open>u2\<close>,
  \<open>u3\<close>; \<open>u2\<close> has no special project, \<open>u4\<close> (not listed) has \<open>p2\<close>, every other one has
  \<open>p1\<close>. The description of \<open>p1\<close>
  names the store \<open>s1\<close>, that of \<open>p2\<close> the store \<open>s2\<close>, that of \<open>p3\<close> the store \<open>s3\<close>, and
  no other special project is known (status 404, reached through one redirect). Store \<open>s1\<close>
  serves a PDF under the header \<open>attachment; filename="a b/c?.pdf"\<close>, store \<open>s3\<close> one under
  \<open>attachment; filename="X.pdf"\<close> with U+00E9 (e with acute accent) for \<open>X\<close>, and the
  other stores send no
  \<open>Content-Disposition\<close>.
\<close>

definition ok_response :: response where
  "ok_response =
     \<lparr>status = 200, headers = [], content = [], json_body = Inr PNone,
      text_body = [], resp_url = [], history = []\<rparr>"

definition store_description :: "string \<Rightarrow> response" where
  "store_description store =
     ok_response\<lparr>json_body := Inr (PDict [(pystr ''store_uuid'', PStr (pystr store))]),
                 content := pystr ''{store_uuid}''\<rparr>"

definition pdf_bytes :: "nat list" where
  "pdf_bytes = pystr ''%PDF-1.4''"

fun demo_get :: "request \<Rightarrow> response" where
  "demo_get (Claims limit) =
     ok_response\<lparr>json_body := Inr (PDict [(pystr ''data'',
        PList [PDict [(pystr ''uuid'', PStr (pystr ''u1''))],
               PDict [(pystr ''uuid'', PStr (pystr ''u2''))],
               PDict [(pystr ''uuid'', PStr (pystr ''u3''))]])])\<rparr>"
| "demo_get (SpecialProjects claim_uuid) =
     (if claim_uuid = PStr (pystr ''u2'') then ok_response\<lparr>json_body := Inr (PList [])\<rparr>
      else if claim_uuid = PStr (pystr ''u4'') then
        ok_response\<lparr>json_body :=
          Inr (PList [PDict [(pystr ''special_project_uuid'', PStr (pystr ''p2''))]])\<rparr>
      else ok_response\<lparr>json_body :=
             Inr (PList [PDict [(pystr ''special_project_uuid'', PStr (pystr ''p1''))]])\<rparr>)"
| "demo_get (SpecialProjectDownload file_uuid) =
     (if file_uuid = PStr (pystr ''p1'') then store_description ''s1''
      else if file_uuid = PStr (pystr ''p2'') then store_description ''s2''
      else if file_uuid = PStr (pystr ''p3'') then store_description ''s3''
      else ok_response\<lparr>status := 404, text_body := pystr ''not found'',
                       resp_url := pystr ''/error'',
                       history := [(pystr ''/api/claim/special_project/download'', 302)]\<rparr>)"
| "demo_get (Docstore store_uuid) =
     (if store_uuid = PStr (pystr ''s1'') then
        ok_response\<lparr>headers := [(''Content-Disposition'',
                        pystr ''attachment; filename='' @ [dquote] @ pystr ''a b/c?.pdf'' @ [dquote])],
                    content := pdf_bytes\<rparr>
      else if store_uuid = PStr (pystr ''s3'') then
        ok_response\<lparr>headers := [(''Content-Disposition'',
                        pystr ''attachment; filename='' @ [dquote, 233] @ pystr ''.pdf'' @ [dquote])],
                    content := pdf_bytes\<rparr>
      else ok_response)"

definition demo :: session where
  "demo = \<lparr>http_get = demo_get, cookie_jar = (\<lambda>rq. [(pystr ''kgws_lkp'', pystr ''secret'')])\<rparr>"

definition empty_world :: world where
  "empty_world = \<lparr>dir_exists = False, files = Map.empty, opened = [], sent = [], stdout = []\<rparr>"

text \<open>
  The rows of the Unicode character database for U+0080 to U+00FF: the letters, the
  superscript digits and the fractions are alphanumeric, none is a decimal digit. This
  table classifies no character beyond U+00FF.
\<close>

definition latin1_db :: unicode_db where
  "latin1_db =
     \<lparr>uni_alnum = (\<lambda>c. c \<in> {170, 178, 179, 181, 185, 186, 188, 189, 190}
                        \<or> (192 \<le> c \<and> c \<le> 255 \<and> c \<noteq> 215 \<and> c \<noteq> 247)),
      uni_decimal = (\<lambda>c. False)\<rparr>"

text \<open>
  A callback for concrete runs of the fan-out: it records its argument in the world, a list,
  and returns ten times the argument.
\<close>

definition tag_callback :: "unit \<Rightarrow> nat \<Rightarrow> (nat list, nat) task" where
  "tag_callback s arg w = (w @ [arg], Inr (10 * arg))"

text \<open>
  The substitution as the specification words it: every character outside
  \<open>[A-Za-z0-9_.-]\<close> becomes an underscore.
\<close>

definition spec_allowed :: "nat \<Rightarrow> bool" where
  "spec_allowed c = (ascii_alnum c \<or> c = underscore \<or> c = 46 \<or> c = 45)"

definition spec_sub_forbidden :: "ustr \<Rightarrow> ustr" where
  "spec_sub_forbidden s = map (\<lambda>c. if spec_allowed c then c else underscore) s"

text \<open>
  The name \<open>get_filename_from_response_headers\<close> resolves for a store: it depends on the
  service only, not on the world.
\<close>

definition filename_of :: "unicode_db \<Rightarrow> session \<Rightarrow> pyval \<Rightarrow> ustr option" where
  "filename_of db s store_uuid = snd (get_filename_from_response_headers db s store_uuid empty_world)"

text \<open>
  Two relations between worlds for the proofs about the download stage: the later world has
  the directory and every file of the earlier one, with the same bytes; and a download that
  changes nothing on disk and returns \<open>None\<close>.
\<close>

definition grows :: "world \<Rightarrow> world \<Rightarrow> bool" where
  "grows w w' =
     ((dir_exists w \<longrightarrow> dir_exists w') \<and> (\<forall>name bytes. files w name = Some bytes \<longrightarrow> files w' name = Some bytes))"

definition quiet :: "unicode_db \<Rightarrow> session \<Rightarrow> pyval \<Rightarrow> world \<Rightarrow> bool" where
  "quiet db s file_uuid w =
     (snd (download_pdf db s file_uuid w) = Inr PNone
      \<and> dir_exists (fst (download_pdf db s file_uuid w)) = dir_exists w
      \<and> files (fst (download_pdf db s file_uuid w)) = files w
      \<and> opened (fst (download_pdf db s file_uuid w)) = opened w)"

text \<open>
  Four identifiers for concrete runs of the download stage (\<open>p1\<close> twice, \<open>p3\<close>, and the
  unknown \<open>p9\<close>), and a world in which \<open>a_b_c_.pdf\<close> is already on disk with three bytes.
\<close>

definition demo_uuids :: "pyval list" where
  "demo_uuids = [PStr (pystr ''p1''), PStr (pystr ''p3''), PStr (pystr ''p9''), PStr (pystr ''p1'')]"

definition old_file_world :: world where
  "old_file_world =
     empty_world\<lparr>dir_exists := True, files := [pystr ''a_b_c_.pdf'' \<mapsto> [1, 2, 3]]\<rparr>"

text \<open>
  Two orders in which a set may be iterated: \<open>p2\<close>, then \<open>None\<close>, then every other value; and
  \<open>None\<close> after every other value.
\<close>

definition none_between :: "pyval \<Rightarrow> nat" where
  "none_between v = (if v = PStr (pystr ''p2'') then 0 else if v = PNone then 1 else 2)"

definition none_last :: "pyval \<Rightarrow> nat" where
  "none_last v = (if v = PNone then 1 else 0)"

text \<open>
  An account without travel sheets, and an account with 1500 of them (all with the uuid
  \<open>u\<close>), whose listing returns as many records as the limit allows.
\<close>

definition no_sheets :: session where
  "no_sheets =
     \<lparr>http_get = (\<lambda>rq. ok_response\<lparr>json_body := Inr (PDict [(pystr ''data'', PList [])])\<rparr>),
      cookie_jar = (\<lambda>rq. [])\<rparr>"

definition many_sheets_get :: "request \<Rightarrow> response" where
  "many_sheets_get rq =
     (case rq of
        Claims limit \<Rightarrow>
          ok_response\<lparr>json_body := Inr (PDict [(pystr ''data'',
            PList (replicate (nat (min limit 1500)) (PDict [(pystr ''uuid'', PStr (pystr ''u''))])))])\<rparr>
      | _ \<Rightarrow> ok_response)"

definition many_sheets :: session where
  "many_sheets = \<lparr>http_get = many_sheets_get, cookie_jar = (\<lambda>rq. [])\<rparr>"

section \<open>The attachment resolver\<close>

text \<open>
  C7. Once the response has been decoded, the resolver returns the field
  \<open>special_project_uuid\<close> of the first record of a non-empty list (\<open>None\<close> when the record
  lacks the field), and \<open>None\<close> when the list is empty or when the field access raises
  whatever exception; it never propagates an error.
\<close>

theorem resolver_contract:
  assumes "json_body (http_get s (SpecialProjects claim_uuid)) = Inr json"
  shows "(\<forall>record rest. json = PList (PDict record # rest) \<longrightarrow>
            snd (get_special_project_file_uuid s claim_uuid w)
              = Inr (case map_of record (pystr ''special_project_uuid'') of
                       None \<Rightarrow> PNone | Some v \<Rightarrow> v))
       \<and> (json = PList [] \<longrightarrow> snd (get_special_project_file_uuid s claim_uuid w) = Inr PNone)
       \<and> (\<forall>e. first_record_field json = Inl e \<longrightarrow>
            snd (get_special_project_file_uuid s claim_uuid w) = Inr PNone)
       \<and> (\<forall>e. snd (get_special_project_file_uuid s claim_uuid w) \<noteq> Inl e)"
  using assms
  by (auto simp: get_special_project_file_uuid_def session_get_def first_record_field_def
           split: sum.splits option.splits)

theorem resolver_contract_witness:
  "json_body (http_get demo (SpecialProjects (PStr (pystr ''u1''))))
     = Inr (PList [PDict [(pystr ''special_project_uuid'', PStr (pystr ''p1''))]])
   \<and> snd (get_special_project_file_uuid demo (PStr (pystr ''u1'')) empty_world)
     = Inr (PStr (pystr ''p1''))"
proof -
  have h: "json_body (http_get demo (SpecialProjects (PStr (pystr ''u1''))))
     = Inr (PList [PDict [(pystr ''special_project_uuid'', PStr (pystr ''p1''))]])"
    by (simp add: demo_def ok_response_def pystr_def)
  from resolver_contract[OF h, of empty_world] show ?thesis using h by simp
qed

section \<open>The fan-out driver\<close>

text \<open>What a run of the tasks does, in terms of the order in which they complete.\<close>

lemma fresh_set: "set (fresh sched seen n) = {i \<in> set sched. i < n} - set seen"
  by (induction sched arbitrary: seen) auto

lemma fresh_distinct: "distinct (fresh sched seen n)"
  by (induction sched arbitrary: seen) (auto simp: fresh_set)

lemma completion_order_set: "set (completion_order sched n) = {..<n}"
  by (auto simp: completion_order_def fresh_set)

lemma completion_order_distinct: "distinct (completion_order sched n)"
  by (simp add: completion_order_def fresh_distinct)

lemma completion_order_length: "length (completion_order sched n) = n"
proof -
  have "card (set (completion_order sched n)) = n" by (simp add: completion_order_set)
  then show ?thesis using completion_order_distinct distinct_card by metis
qed

lemma run_tasks_Inr:
  "run_tasks sched tasks fin w = (w', Inr fin') \<Longrightarrow>
     w' = fold (\<lambda>i. effect (tasks ! i)) (fresh sched (map fst fin) (length tasks)) w
     \<and> map (\<lambda>p. (fst p, Inr (snd p))) fin'
        = map (\<lambda>p. (fst p, Inr (snd p))) fin @ outcomes (fresh sched (map fst fin) (length tasks)) tasks w"
proof (induction sched arbitrary: fin w)
  case Nil
  then show ?case by auto
next
  case (Cons i sched)
  show ?case
  proof (cases "i < length tasks \<and> i \<notin> fst ` set fin")
    case False
    have skip: "run_tasks (i # sched) tasks fin w = run_tasks sched tasks fin w"
      by (simp only: run_tasks.simps if_not_P[OF False])
    have ord: "fresh (i # sched) (map fst fin) (length tasks) = fresh sched (map fst fin) (length tasks)"
      using False by auto
    from Cons.IH[of fin w] Cons.prems show ?thesis unfolding skip ord .
  next
    case True
    obtain w1 res where t: "(tasks ! i) w = (w1, res)" by (cases "(tasks ! i) w")
    show ?thesis
    proof (cases res)
      case (Inl e)
      then show ?thesis using Cons.prems True t by simp
    next
      case (Inr r)
      then have "run_tasks sched tasks (fin @ [(i, r)]) w1 = (w', Inr fin')"
        using Cons.prems True t by simp
      from Cons.IH[OF this] show ?thesis using True t Inr by (simp add: effect_def)
    qed
  qed
qed

lemma run_tasks_Inl:
  "run_tasks sched tasks fin w = (w', Inl e) \<Longrightarrow>
     \<exists>i<length tasks. \<exists>w0. (tasks ! i) w0 = (w', Inl e)"
proof (induction sched arbitrary: fin w)
  case Nil
  then show ?case by simp
next
  case (Cons i sched)
  show ?case
  proof (cases "i < length tasks \<and> i \<notin> fst ` set fin")
    case False
    have skip: "run_tasks (i # sched) tasks fin w = run_tasks sched tasks fin w"
      by (simp only: run_tasks.simps if_not_P[OF False])
    from Cons.IH[of fin w] Cons.prems show ?thesis unfolding skip .
  next
    case True
    obtain w1 res where t: "(tasks ! i) w = (w1, res)" by (cases "(tasks ! i) w")
    show ?thesis
    proof (cases res)
      case (Inl e')
      then show ?thesis using Cons.prems True t by auto
    next
      case (Inr r)
      then have "run_tasks sched tasks (fin @ [(i, r)]) w1 = (w', Inl e)"
        using Cons.prems True t by simp
      from Cons.IH[OF this] show ?thesis .
    qed
  qed
qed


lemma outcomes_fst: "map fst (outcomes ord tasks w) = ord"
  by (induction ord arbitrary: w) auto

lemma outcomes_nth:
  "k < length ord \<Longrightarrow>
     outcomes ord tasks w ! k
       = (ord ! k, snd ((tasks ! (ord ! k)) (fold (\<lambda>i. effect (tasks ! i)) (take k ord) w)))"
proof (induction ord arbitrary: k w)
  case Nil
  then show ?case by simp
next
  case (Cons i ord)
  then show ?case by (cases k) auto
qed

lemma rebuild_from_keys:
  assumes "distinct (map fst xs)"
  shows "map (\<lambda>i. (i, the (map_of xs i))) (map fst xs) = xs"
proof -
  have "(fst p, the (map_of xs (fst p))) = p" if "p \<in> set xs" for p
    using map_of_is_SomeI[OF assms, of "fst p" "snd p"] that by simp
  then have "map (\<lambda>p. (fst p, the (map_of xs (fst p)))) xs = xs" by (simp add: map_idI)
  then show ?thesis by (simp add: comp_def)
qed

lemma map_of_nth_distinct:
  "distinct (map fst xs) \<Longrightarrow> k < length xs \<Longrightarrow> map_of xs (fst (xs ! k)) = Some (snd (xs ! k))"
  by (metis map_of_is_SomeI nth_mem prod.collapse)

lemma sort_key_fst_perm:
  fixes xs :: "(nat \<times> 'a) list"
  assumes d: "distinct (map fst xs)" and s: "set (map fst xs) = {..<n}"
  shows "sort_key fst xs = map (\<lambda>i. (i, the (map_of xs i))) [0..<n]"
proof (rule sort_key_inj_key_eq)
  have "set (map fst xs) = set [0..<n]" using s by auto
  then have "mset (map fst xs) = mset [0..<n]"
    using d set_eq_iff_mset_eq_distinct[of "map fst xs" "[0..<n]"] by simp
  then have "mset (map (\<lambda>i. (i, the (map_of xs i))) (map fst xs))
             = mset (map (\<lambda>i. (i, the (map_of xs i))) [0..<n])"
    by (metis mset_map)
  then show "mset xs = mset (map (\<lambda>i. (i, the (map_of xs i))) [0..<n])"
    unfolding rebuild_from_keys[OF d] .
  show "inj_on fst (set xs)" using d by (simp add: distinct_map)
  have "map fst (map (\<lambda>i. (i, the (map_of xs i))) [0..<n]) = [0..<n]"
    by (simp add: comp_def)
  then show "sorted (map fst (map (\<lambda>i. (i, the (map_of xs i))) [0..<n]))" by simp
qed

lemma gather_Inr:
  assumes g: "gather sched tasks w = (w', Inr rs)"
  shows "w' = fold (\<lambda>i. effect (tasks ! i)) (completion_order sched (length tasks)) w
       \<and> length rs = length tasks
       \<and> (\<forall>k<length tasks.
            snd ((tasks ! (completion_order sched (length tasks) ! k))
                   (fold (\<lambda>i. effect (tasks ! i)) (take k (completion_order sched (length tasks))) w))
            = Inr (rs ! (completion_order sched (length tasks) ! k)))"
proof -
  let ?n = "length tasks"
  let ?ord = "completion_order sched ?n"
  obtain fin where run: "run_tasks (sched @ [0..<?n]) tasks [] w = (w', Inr fin)"
    and rs: "rs = map snd (sort_key fst fin)"
    using g by (auto simp: gather_def split: prod.splits sum.splits)
  from run_tasks_Inr[OF run]
  have w': "w' = fold (\<lambda>i. effect (tasks ! i)) ?ord w"
    and out: "map (\<lambda>p. (fst p, Inr (snd p))) fin = outcomes ?ord tasks w"
    by (simp_all add: completion_order_def)
  have "map fst fin = map fst (map (\<lambda>p. (fst p, Inr (snd p) :: error + 'b)) fin)"
    by (simp add: comp_def)
  also have "\<dots> = map fst (outcomes ?ord tasks w)" by (simp only: out)
  also have "\<dots> = ?ord" by (rule outcomes_fst)
  finally have keys: "map fst fin = ?ord" .
  have d: "distinct (map fst fin)" unfolding keys by (rule completion_order_distinct)
  have s: "set (map fst fin) = {..<?n}" unfolding keys by (rule completion_order_set)
  have "length (map fst fin) = ?n" unfolding keys by (rule completion_order_length)
  then have len: "length fin = ?n" by simp
  have rs': "rs = map (\<lambda>i. the (map_of fin i)) [0..<?n]"
    unfolding rs sort_key_fst_perm[OF d s] by (simp add: comp_def)
  have "snd ((tasks ! (?ord ! k)) (fold (\<lambda>i. effect (tasks ! i)) (take k ?ord) w))
          = Inr (rs ! (?ord ! k))" if k: "k < ?n" for k
  proof -
    have kl: "k < length ?ord" using k by (simp add: completion_order_length)
    have "?ord ! k \<in> set ?ord" using kl by (rule nth_mem)
    then have lt: "?ord ! k < ?n" by (simp add: completion_order_set)
    have "outcomes ?ord tasks w ! k
            = (?ord ! k, snd ((tasks ! (?ord ! k)) (fold (\<lambda>i. effect (tasks ! i)) (take k ?ord) w)))"
      by (rule outcomes_nth[OF kl])
    moreover have "outcomes ?ord tasks w ! k = map (\<lambda>p. (fst p, Inr (snd p))) fin ! k"
      by (simp only: out)
    moreover have "map (\<lambda>p. (fst p, Inr (snd p) :: error + 'b)) fin ! k
                     = (fst (fin ! k), Inr (snd (fin ! k)))"
      using k len by simp
    ultimately have a: "snd ((tasks ! (?ord ! k)) (fold (\<lambda>i. effect (tasks ! i)) (take k ?ord) w))
                        = Inr (snd (fin ! k))"
      and b: "fst (fin ! k) = ?ord ! k" by simp_all
    have "map_of fin (?ord ! k) = Some (snd (fin ! k))"
      using map_of_nth_distinct[OF d, of k] k len b by simp
    then have "rs ! (?ord ! k) = snd (fin ! k)" using rs' lt by simp
    then show ?thesis using a by simp
  qed
  then show ?thesis using w' rs' by simp
qed

lemma gather_Inl:
  assumes g: "gather sched tasks w = (w', Inl e)"
  shows "\<exists>i<length tasks. \<exists>w0. (tasks ! i) w0 = (w', Inl e)"
proof -
  obtain w1 res where run: "run_tasks (sched @ [0..<length tasks]) tasks [] w = (w1, res)"
    by (cases "run_tasks (sched @ [0..<length tasks]) tasks [] w")
  show ?thesis
  proof (cases res)
    case (Inl e')
    then have "w1 = w'" "e' = e" using g run by (simp_all add: gather_def)
    then have "run_tasks (sched @ [0..<length tasks]) tasks [] w = (w', Inl e)"
      using run Inl by simp
    then show ?thesis by (rule run_tasks_Inl)
  next
    case (Inr fin)
    then show ?thesis using g run by (simp add: gather_def)
  qed
qed

lemma gather_pure_results:
  assumes pure: "\<forall>i<length tasks. \<forall>w. snd ((tasks ! i) w) = Inr (f i)"
  shows "snd (gather sched tasks w) = Inr (map f [0..<length tasks])"
proof -
  obtain w' res where g: "gather sched tasks w = (w', res)" by (cases "gather sched tasks w")
  show ?thesis
  proof (cases res)
    case (Inl e)
    from gather_Inl[OF g[unfolded Inl]]
    obtain i w0 where "i < length tasks" "(tasks ! i) w0 = (w', Inl e)" by blast
    then show ?thesis using pure[rule_format, of i w0] by simp
  next
    case (Inr rs)
    let ?ord = "completion_order sched (length tasks)"
    from gather_Inr[OF g[unfolded Inr]]
    have len: "length rs = length tasks"
      and res: "\<forall>k<length tasks. snd ((tasks ! (?ord ! k))
                   (fold (\<lambda>i. effect (tasks ! i)) (take k ?ord) w)) = Inr (rs ! (?ord ! k))"
      by simp_all
    have "rs ! i = f i" if i: "i < length tasks" for i
    proof -
      have "i \<in> set ?ord" using i by (simp add: completion_order_set)
      then obtain k where k: "k < length ?ord" "?ord ! k = i" by (auto simp: in_set_conv_nth)
      then have kn: "k < length tasks" by (simp add: completion_order_length)
      from res[rule_format, OF kn]
      have "snd ((tasks ! i) (fold (\<lambda>i. effect (tasks ! i)) (take k ?ord) w)) = Inr (rs ! i)"
        unfolding k(2) .
      moreover have "snd ((tasks ! i) (fold (\<lambda>i. effect (tasks ! i)) (take k ?ord) w)) = Inr (f i)"
        using pure i by blast
      ultimately show ?thesis by simp
    qed
    then have "rs = map f [0..<length tasks]" using len by (intro nth_equalityI) simp_all
    then show ?thesis using g Inr by simp
  qed
qed

lemma fold_effect_tasks:
  assumes "set xs \<subseteq> {..<length arg_list}"
  shows "fold (\<lambda>i. effect (map g arg_list ! i)) xs w = fold (\<lambda>i. effect (g (arg_list ! i))) xs w"
proof (rule fold_cong)
  fix x assume "x \<in> set xs"
  then have "x < length arg_list" using assms by auto
  then show "effect (map g arg_list ! x) = effect (g (arg_list ! x))" by simp
qed simp_all

lemma async_requester_char:
  "distinct (completion_order schedule (length arg_list))
   \<and> set (completion_order schedule (length arg_list)) = {..<length arg_list}
   \<and> (case async_requester schedule s arg_list callback_func w of
        (w', Inl e) \<Rightarrow> \<exists>i<length arg_list. \<exists>w0. callback_func s (arg_list ! i) w0 = (w', Inl e)
      | (w', Inr rs) \<Rightarrow>
          length rs = length arg_list
          \<and> w' = fold (\<lambda>i. effect (callback_func s (arg_list ! i)))
                    (completion_order schedule (length arg_list)) w
          \<and> (\<forall>k<length arg_list.
                snd (callback_func s (arg_list ! (completion_order schedule (length arg_list) ! k))
                       (fold (\<lambda>i. effect (callback_func s (arg_list ! i)))
                          (take k (completion_order schedule (length arg_list))) w))
                = Inr (rs ! (completion_order schedule (length arg_list) ! k))))
   \<and> ((\<forall>arg\<in>set arg_list. \<forall>w0. snd (callback_func s arg w0) = Inr (f arg))
        \<longrightarrow> snd (async_requester schedule s arg_list callback_func w) = Inr (map f arg_list))"
proof -
  let ?n = "length arg_list"
  let ?ord = "completion_order schedule ?n"
  let ?tasks = "map (\<lambda>arg. callback_func s arg) arg_list"
  have a: "async_requester schedule s arg_list callback_func w = gather schedule ?tasks w"
    by (simp add: async_requester_def)
  have sub: "set (take k ?ord) \<subseteq> {..<?n}" for k
    using set_take_subset[of k ?ord] by (simp add: completion_order_set)
  have sub': "set ?ord \<subseteq> {..<?n}" by (simp add: completion_order_set)
  have nth_ord: "?ord ! k < ?n" if "k < ?n" for k
  proof -
    have "?ord ! k \<in> set ?ord" using that by (simp add: completion_order_length)
    then show ?thesis by (simp add: completion_order_set)
  qed
  obtain w' res where g: "gather schedule ?tasks w = (w', res)" by (cases "gather schedule ?tasks w")
  have main: "case (w', res) of
        (w', Inl e) \<Rightarrow> \<exists>i<?n. \<exists>w0. callback_func s (arg_list ! i) w0 = (w', Inl e)
      | (w', Inr rs) \<Rightarrow>
          length rs = ?n
          \<and> w' = fold (\<lambda>i. effect (callback_func s (arg_list ! i))) ?ord w
          \<and> (\<forall>k<?n.
                snd (callback_func s (arg_list ! (?ord ! k))
                       (fold (\<lambda>i. effect (callback_func s (arg_list ! i))) (take k ?ord) w))
                = Inr (rs ! (?ord ! k)))"
  proof (cases res)
    case (Inl e)
    from gather_Inl[OF g[unfolded Inl]]
    obtain i w0 where "i < ?n" "(?tasks ! i) w0 = (w', Inl e)" by auto
    then have "i < ?n \<and> callback_func s (arg_list ! i) w0 = (w', Inl e)" by simp
    then show ?thesis using Inl by auto
  next
    case (Inr rs)
    from gather_Inr[OF g[unfolded Inr]]
    have w': "w' = fold (\<lambda>i. effect (?tasks ! i)) ?ord w"
      and len: "length rs = ?n"
      and res: "\<forall>k<?n. snd ((?tasks ! (?ord ! k)) (fold (\<lambda>i. effect (?tasks ! i)) (take k ?ord) w))
                  = Inr (rs ! (?ord ! k))"
      by simp_all
    have w'': "w' = fold (\<lambda>i. effect (callback_func s (arg_list ! i))) ?ord w"
      unfolding w' by (rule fold_effect_tasks[OF sub'])
    have "snd (callback_func s (arg_list ! (?ord ! k))
                 (fold (\<lambda>i. effect (callback_func s (arg_list ! i))) (take k ?ord) w))
            = Inr (rs ! (?ord ! k))" if k: "k < ?n" for k
    proof -
      have "snd ((?tasks ! (?ord ! k)) (fold (\<lambda>i. effect (?tasks ! i)) (take k ?ord) w))
              = Inr (rs ! (?ord ! k))"
        using res k by blast
      then show ?thesis
        unfolding fold_effect_tasks[OF sub] using nth_ord[OF k] by simp
    qed
    then show ?thesis using Inr len w'' by simp
  qed
  have pure: "snd (async_requester schedule s arg_list callback_func w) = Inr (map f arg_list)"
    if p: "\<forall>arg\<in>set arg_list. \<forall>w0. snd (callback_func s arg w0) = Inr (f arg)"
  proof -
    have "\<forall>i<length ?tasks. \<forall>w0. snd ((?tasks ! i) w0) = Inr ((\<lambda>i. f (arg_list ! i)) i)"
      using p by simp
    from gather_pure_results[OF this, of schedule w]
    have "snd (gather schedule ?tasks w) = Inr (map (\<lambda>i. f (arg_list ! i)) [0..<?n])" by simp
    moreover have "map (\<lambda>i. f (arg_list ! i)) [0..<?n] = map f arg_list"
      by (intro nth_equalityI) simp_all
    ultimately show ?thesis using a by simp
  qed
  show ?thesis
    using main pure completion_order_distinct[of schedule ?n] completion_order_set[of schedule ?n]
    unfolding a g by blast
qed

text \<open>
  C5. For every schedule, input list and callback, the tasks complete in an order that names
  every input exactly once. When \<open>async_requester\<close> returns, there is one result per input,
  the world is the one the invocations leave when run in completion order, and the result at
  the position of an input is what the invocation for that input returned when it ran; it
  raises only an exception that one of the invocations raised. In particular, when the
  invocation for \<open>arg\<close> always returns \<open>f arg\<close>, the results are \<open>map f arg_list\<close>, in the order
  of the inputs, whatever the completion order.
\<close>

theorem async_requester_contract:
  "distinct (completion_order schedule (length arg_list))
   \<and> set (completion_order schedule (length arg_list)) = {..<length arg_list}
   \<and> (case async_requester schedule s arg_list callback_func w of
        (w', Inl e) \<Rightarrow> \<exists>i<length arg_list. \<exists>w0. callback_func s (arg_list ! i) w0 = (w', Inl e)
      | (w', Inr rs) \<Rightarrow>
          length rs = length arg_list
          \<and> w' = fold (\<lambda>i. effect (callback_func s (arg_list ! i)))
                    (completion_order schedule (length arg_list)) w
          \<and> (\<forall>k<length arg_list.
                snd (callback_func s (arg_list ! (completion_order schedule (length arg_list) ! k))
                       (fold (\<lambda>i. effect (callback_func s (arg_list ! i)))
                          (take k (completion_order schedule (length arg_list))) w))
                = Inr (rs ! (completion_order schedule (length arg_list) ! k))))
   \<and> ((\<forall>arg\<in>set arg_list. \<forall>w0. snd (callback_func s arg w0) = Inr (f arg))
        \<longrightarrow> snd (async_requester schedule s arg_list callback_func w) = Inr (map f arg_list))"
  by (rule async_requester_char)

theorem async_requester_contract_witness:
  "async_requester [1, 0, 2] () [1, 2, 3] tag_callback [] = ([2, 1, 3], Inr [10, 20, 30])
   \<and> snd (async_requester [1, 0, 2] () [1, 2, 3] tag_callback []) = Inr (map (\<lambda>arg. 10 * arg) [1, 2, 3])"
proof -
  have e: "async_requester [1, 0, 2] () [1, 2, 3] tag_callback [] = ([2, 1, 3], Inr [10, 20, 30])"
    by code_simp
  have p: "\<forall>arg\<in>set [1, 2, 3]. \<forall>w0. snd (tag_callback () arg w0) = Inr (10 * arg)"
    by (simp add: tag_callback_def)
  from async_requester_contract[where schedule = "[1, 0, 2]" and arg_list = "[1, 2, 3]" and s = "()"
         and callback_func = tag_callback and w = "[]" and f = "\<lambda>arg. 10 * arg"] p e
  show ?thesis by blast
qed

section \<open>Filename resolution\<close>

lemma starts_with_append: "starts_with (p @ q) s \<Longrightarrow> starts_with p s"
proof -
  assume "starts_with (p @ q) s"
  then have "take (length p + length q) s = p @ q" by (simp add: starts_with_def)
  then have "take (length p) (take (length p + length q) s) = take (length p) (p @ q)" by simp
  then show ?thesis by (simp add: starts_with_def min_def)
qed

lemma match_filename_at_in:
  assumes "match_filename_at s = Some g"
  shows "starts_with (pystr ''filename'') s"
proof -
  have "starts_with (pystr ''filename='' @ [dquote]) s"
    using assms by (simp add: match_filename_at_def split: if_splits)
  moreover have "pystr ''filename='' @ [dquote] = pystr ''filename'' @ (pystr ''='' @ [dquote])"
    by (simp add: pystr_def)
  ultimately show ?thesis using starts_with_append by metis
qed

lemma py_in_tl: "s \<noteq> [] \<Longrightarrow> py_in sub (tl s) \<Longrightarrow> py_in sub s"
  by (cases s) auto

lemma py_in_starts_with: "s \<noteq> [] \<Longrightarrow> starts_with sub s \<Longrightarrow> py_in sub s"
  by (cases s) auto

lemma findall_filename_in:
  "findall_filename cd = g # gs \<Longrightarrow> cd \<noteq> [] \<and> py_in (pystr ''filename'') cd"
proof (induction cd rule: findall_filename.induct)
  case (1 s)
  have ne: "s \<noteq> []" using "1.prems" by (auto simp: findall_filename.simps[of s])
  show ?case
  proof (cases "match_filename_at s")
    case None
    then have "findall_filename (tl s) = g # gs"
      using "1.prems" ne by (simp add: findall_filename.simps[of s])
    then have "py_in (pystr ''filename'') (tl s)" using "1.IH"(1)[OF ne None] by simp
    then show ?thesis using ne py_in_tl by simp
  next
    case (Some a)
    then show ?thesis using ne match_filename_at_in py_in_starts_with by simp
  qed
qed

lemma kept_char_ascii: "c < 128 \<Longrightarrow> kept_char db c = spec_allowed c"
  by (auto simp: kept_char_def spec_allowed_def re_word_def re_digit_def ascii_alnum_def)

lemma sub_forbidden_chars:
  "c \<in> set (sub_forbidden db x) \<Longrightarrow> kept_char db c"
  by (auto simp: sub_forbidden_def kept_char_def re_word_def underscore_def split: if_splits)

lemma not_kept_quote_newline: "\<not> kept_char db dquote" "\<not> kept_char db newline"
  by (simp_all add: kept_char_def re_word_def re_digit_def ascii_alnum_def dquote_def newline_def
        underscore_def)

lemma sub_end_quote_id: "dquote \<notin> set s \<Longrightarrow> sub_end_quote s = s"
proof -
  assume a: "dquote \<notin> set s"
  have 1: "\<not> (s \<noteq> [] \<and> last s = dquote)" using a last_in_set by metis
  have 2: "\<not> (2 \<le> length s \<and> last s = newline \<and> last (butlast s) = dquote)"
  proof
    assume b: "2 \<le> length s \<and> last s = newline \<and> last (butlast s) = dquote"
    then have "butlast s \<noteq> []" by (cases s) auto
    then have "last (butlast s) \<in> set (butlast s)" by simp
    then have "dquote \<in> set s" using b in_set_butlastD by metis
    then show False using a by simp
  qed
  show ?thesis by (simp only: sub_end_quote_def if_not_P[OF 1] if_not_P[OF 2])
qed

lemma sub_outer_quotes_id: "dquote \<notin> set s \<Longrightarrow> sub_outer_quotes s = s"
  by (cases s) (auto simp: sub_outer_quotes_def sub_end_quote_id)

lemma sub_forbidden_no_quote: "dquote \<notin> set (sub_forbidden db x)"
  using sub_forbidden_chars not_kept_quote_newline(1) by blast

lemma sub_forbidden_ascii:
  "\<forall>c\<in>set x. c < 128 \<Longrightarrow> sub_forbidden db x = spec_sub_forbidden x"
  by (simp add: sub_forbidden_def spec_sub_forbidden_def kept_char_ascii)

text \<open>
  C4, as the code has it. When the storage response has status 200 and its
  \<open>Content-Disposition\<close> header has a match \<open>g\<close> of \<open>filename="(.+)"\<close>, the resolved name is
  the URL-decoded \<open>g\<close> in which every character that is not a word character of \<open>\w\<close> (an
  alphanumeric character of any script or the underscore), a digit, a dot or a hyphen is
  replaced by an underscore. No double quote is left in it, so the final removal of quotes
  changes nothing. When the decoded value is ASCII, the characters replaced are exactly
  those outside \<open>[A-Za-z0-9_.-]\<close>.
\<close>

theorem filename_resolution:
  assumes st: "status (http_get s (Docstore store_uuid)) = 200"
      and cd: "map_of (headers (http_get s (Docstore store_uuid))) ''Content-Disposition'' = Some cd"
      and m: "findall_filename cd = g # gs"
  shows "snd (get_filename_from_response_headers db s store_uuid w) = Some (sub_forbidden db (unquote g))
       \<and> (\<forall>c\<in>set (sub_forbidden db (unquote g)). kept_char db c)
       \<and> dquote \<notin> set (sub_forbidden db (unquote g))
       \<and> ((\<forall>c\<in>set (unquote g). c < 128)
            \<longrightarrow> sub_forbidden db (unquote g) = spec_sub_forbidden (unquote g))"
proof -
  have "cd \<noteq> [] \<and> py_in (pystr ''filename'') cd" using m by (rule findall_filename_in)
  then have "snd (get_filename_from_response_headers db s store_uuid w)
               = Some (sub_outer_quotes (sub_forbidden db (unquote g)))"
    using st cd m by (simp add: get_filename_from_response_headers_def session_get_def)
  then show ?thesis
    using sub_outer_quotes_id[OF sub_forbidden_no_quote] sub_forbidden_chars
      sub_forbidden_no_quote sub_forbidden_ascii by metis
qed

lemma demo_s1_header:
  "findall_filename (pystr ''attachment; filename='' @ [dquote] @ pystr ''a b/c?.pdf'' @ [dquote])
     = [pystr ''a b/c?.pdf'']"
  by code_simp

lemma demo_s3_header:
  "findall_filename (pystr ''attachment; filename='' @ [dquote, 233] @ pystr ''.pdf'' @ [dquote])
     = [233 # pystr ''.pdf'']"
  by code_simp

text \<open>The header value \<open>filename="a b/c?.pdf"\<close> resolves to \<open>a_b_c_.pdf\<close>.\<close>

theorem filename_resolution_witness:
  "snd (get_filename_from_response_headers latin1_db demo (PStr (pystr ''s1'')) empty_world)
     = Some (pystr ''a_b_c_.pdf'')"
proof -
  have st: "status (http_get demo (Docstore (PStr (pystr ''s1'')))) = 200"
    by (simp add: demo_def ok_response_def)
  have cd: "map_of (headers (http_get demo (Docstore (PStr (pystr ''s1''))))) ''Content-Disposition''
              = Some (pystr ''attachment; filename='' @ [dquote] @ pystr ''a b/c?.pdf'' @ [dquote])"
    by (simp add: demo_def ok_response_def)
  have e: "sub_forbidden latin1_db (unquote (pystr ''a b/c?.pdf'')) = pystr ''a_b_c_.pdf''"
    by code_simp
  from filename_resolution[OF st cd demo_s1_header, of latin1_db empty_world] e
  show ?thesis by simp
qed

text \<open>
  C4 as stated fails on a letter beyond ASCII: under the header value \<open>filename="X.pdf"\<close>
  with U+00E9 for \<open>X\<close> the letter is kept, where the rule of the specification gives
  \<open>_.pdf\<close>.
\<close>

theorem filename_non_ascii_counterexample:
  "snd (get_filename_from_response_headers latin1_db demo (PStr (pystr ''s3'')) empty_world)
     = Some (233 # pystr ''.pdf'')
   \<and> spec_sub_forbidden (unquote (233 # pystr ''.pdf'')) = pystr ''_.pdf''"
  by code_simp

section \<open>The downloader\<close>

text \<open>The branches of \<open>download_pdf\<close>, each as one equation on the world.\<close>

lemma get_filename_eq:
  "get_filename_from_response_headers db s store_uuid w
     = (w\<lparr>sent := sent w @ [Docstore store_uuid]\<rparr>, filename_of db s store_uuid)"
  by (simp add: filename_of_def get_filename_from_response_headers_def session_get_def
           split: option.splits list.splits)

lemma write_chunks_nil: "write_chunks filename [] w = w"
  by (simp add: write_chunks.simps[of filename "[]" w] content_read_def)

text \<open>
  The loop of \<open>download_pdf\<close> writes the whole stream it is given to the file just opened,
  1024 bytes at a time.
\<close>

lemma file_write_twice:
  "file_write name b (file_write name a w) = file_write name (a @ b) w"
  by (simp add: file_write_def split: option.splits)

lemma write_chunks_file_write:
  "stream \<noteq> [] \<Longrightarrow> write_chunks name stream w = file_write name stream w"
proof (induction name stream w rule: write_chunks.induct)
  case (1 name stream w)
  show ?case
  proof (cases "drop 1024 stream = []")
    case True
    then have "take 1024 stream = stream" by simp
    moreover have "write_chunks name [] (file_write name stream w) = file_write name stream w"
      by (simp add: write_chunks.simps[of name "[]"] content_read_def)
    ultimately show ?thesis
      using "1.prems" True by (simp add: write_chunks.simps[of name stream] content_read_def)
  next
    case False
    have ne: "take 1024 stream \<noteq> []" using "1.prems" by simp
    have "write_chunks name (drop 1024 stream) (file_write name (take 1024 stream) w)
            = file_write name (drop 1024 stream) (file_write name (take 1024 stream) w)"
      using "1.IH"[of "(take 1024 stream, drop 1024 stream)" "take 1024 stream" "drop 1024 stream"]
        ne False by (simp add: content_read_def)
    then show ?thesis
      using ne by (simp add: write_chunks.simps[of name stream] content_read_def file_write_twice)
  qed
qed

lemma write_chunks_whole_stream:
  "files (write_chunks name stream (open_wb name w)) name = Some stream"
proof (cases "stream = []")
  case True
  then show ?thesis by (simp add: write_chunks.simps[of name "[]"] content_read_def open_wb_def)
next
  case False
  then show ?thesis by (simp add: write_chunks_file_write file_write_def open_wb_def)
qed

lemma print_fold:
  "fold (\<lambda>x. print (g x)) xs w = w\<lparr>stdout := stdout w @ map g xs\<rparr>"
  by (induction xs arbitrary: w) (simp_all add: print_def)

lemma info_request_log_eq:
  "info_request_log url s r w =
     w\<lparr>stdout := stdout w
          @ [InfoRequestLog (cookie_jar s url) (status r) (headers r) (text_body r) (resp_url r)]
          @ map (\<lambda>redirect. RedirectLine (fst redirect) (snd redirect)) (history r)\<rparr>"
  by (simp add: info_request_log_def print_fold Let_def) (simp add: print_def)

lemma download_pdf_failed:
  assumes "status (http_get s (SpecialProjectDownload file_uuid)) \<noteq> 200"
  shows "download_pdf db s file_uuid w =
     (w\<lparr>sent := sent w @ [SpecialProjectDownload file_uuid],
        stdout := stdout w
          @ [ErrorLoading (status (http_get s (SpecialProjectDownload file_uuid))),
             InfoRequestLog (cookie_jar s (SpecialProjectDownload file_uuid))
               (status (http_get s (SpecialProjectDownload file_uuid)))
               (headers (http_get s (SpecialProjectDownload file_uuid)))
               (text_body (http_get s (SpecialProjectDownload file_uuid)))
               (resp_url (http_get s (SpecialProjectDownload file_uuid)))]
          @ map (\<lambda>redirect. RedirectLine (fst redirect) (snd redirect))
              (history (http_get s (SpecialProjectDownload file_uuid)))\<rparr>,
      Inr PNone)"
  using assms
  by (simp add: download_pdf_def session_get_def info_request_log_eq print_def Let_def)

lemma download_pdf_json_error:
  assumes "status (http_get s (SpecialProjectDownload file_uuid)) = 200"
      and "json_body (http_get s (SpecialProjectDownload file_uuid)) = Inl e"
  shows "download_pdf db s file_uuid w = (w\<lparr>sent := sent w @ [SpecialProjectDownload file_uuid]\<rparr>, Inl e)"
  using assms by (simp add: download_pdf_def session_get_def response_json_def Let_def)

lemma download_pdf_store_error:
  assumes "status (http_get s (SpecialProjectDownload file_uuid)) = 200"
      and "json_body (http_get s (SpecialProjectDownload file_uuid)) = Inr json"
      and "py_item json (pystr ''store_uuid'') = Inl e"
  shows "download_pdf db s file_uuid w = (w\<lparr>sent := sent w @ [SpecialProjectDownload file_uuid]\<rparr>, Inl e)"
  using assms by (simp add: download_pdf_def session_get_def response_json_def Let_def)

lemma download_pdf_no_name:
  assumes "status (http_get s (SpecialProjectDownload file_uuid)) = 200"
      and "json_body (http_get s (SpecialProjectDownload file_uuid)) = Inr json"
      and "py_item json (pystr ''store_uuid'') = Inr store_uuid"
      and "filename_of db s store_uuid = None"
  shows "download_pdf db s file_uuid w
           = (w\<lparr>sent := sent w @ [SpecialProjectDownload file_uuid, Docstore store_uuid]\<rparr>, Inr PNone)"
  using assms
  by (simp add: download_pdf_def session_get_def response_json_def get_filename_eq Let_def)

lemma download_pdf_exists:
  assumes "status (http_get s (SpecialProjectDownload file_uuid)) = 200"
      and "json_body (http_get s (SpecialProjectDownload file_uuid)) = Inr json"
      and "py_item json (pystr ''store_uuid'') = Inr store_uuid"
      and "filename_of db s store_uuid = Some save_name"
      and "path_exists w save_name"
  shows "download_pdf db s file_uuid w
           = (w\<lparr>dir_exists := True,
                sent := sent w @ [SpecialProjectDownload file_uuid, Docstore store_uuid],
                stdout := stdout w @ [AlreadyExists save_name]\<rparr>, Inr PNone)"
  using assms
  by (simp add: download_pdf_def session_get_def response_json_def get_filename_eq Let_def
        makedirs_def path_exists_def print_def)

lemma download_pdf_new:
  assumes "status (http_get s (SpecialProjectDownload file_uuid)) = 200"
      and "json_body (http_get s (SpecialProjectDownload file_uuid)) = Inr json"
      and "py_item json (pystr ''store_uuid'') = Inr store_uuid"
      and "filename_of db s store_uuid = Some save_name"
      and "\<not> path_exists w save_name"
  shows "download_pdf db s file_uuid w
           = (w\<lparr>dir_exists := True,
                files := (files w)(save_name \<mapsto> []),
                opened := opened w @ [save_name],
                sent := sent w @ [SpecialProjectDownload file_uuid, Docstore store_uuid]\<rparr>,
              Inr (PBool True))"
  using assms
  by (simp add: download_pdf_def session_get_def response_json_def get_filename_eq Let_def
        makedirs_def path_exists_def open_wb_def write_chunks_nil)

text \<open>More on the fan-out: results by input position, a run of one task, counting.\<close>

lemma async_requester_nth:
  assumes "async_requester schedule s arg_list callback_func w = (w', Inr rs)"
  shows "length rs = length arg_list
       \<and> (\<forall>i<length arg_list. \<exists>w0. snd (callback_func s (arg_list ! i) w0) = Inr (rs ! i))"
proof -
  let ?n = "length arg_list"
  let ?ord = "completion_order schedule ?n"
  from async_requester_char[where schedule = schedule and arg_list = arg_list and s = s
         and callback_func = callback_func and w = w] assms
  have len: "length rs = ?n"
    and res: "\<forall>k<?n. snd (callback_func s (arg_list ! (?ord ! k))
                       (fold (\<lambda>i. effect (callback_func s (arg_list ! i))) (take k ?ord) w))
                = Inr (rs ! (?ord ! k))"
    by simp_all
  have "\<exists>w0. snd (callback_func s (arg_list ! i) w0) = Inr (rs ! i)" if i: "i < ?n" for i
  proof -
    have "i \<in> set ?ord" using i by (simp add: completion_order_set)
    then obtain k where k: "k < length ?ord" "?ord ! k = i" by (auto simp: in_set_conv_nth)
    then have kn: "k < ?n" by (simp add: completion_order_length)
    from res[rule_format, OF kn] show ?thesis unfolding k(2) by blast
  qed
  then show ?thesis using len by blast
qed

lemma async_requester_raised:
  assumes "async_requester schedule s arg_list callback_func w = (w', Inl e)"
  shows "\<exists>i<length arg_list. \<exists>w0. callback_func s (arg_list ! i) w0 = (w', Inl e)"
  using async_requester_char[where schedule = schedule and arg_list = arg_list and s = s
         and callback_func = callback_func and w = w] assms by simp

lemma filter_length_pointwise:
  "length xs = length ys \<Longrightarrow> \<forall>i<length xs. P (xs ! i) \<longrightarrow> Q (ys ! i)
     \<Longrightarrow> length (filter P xs) \<le> length (filter Q ys)"
proof (induction xs ys rule: list_induct2)
  case Nil
  then show ?case by simp
next
  case (Cons x xs y ys)
  have hd: "P x \<longrightarrow> Q y" using Cons.prems by (metis length_greater_0_conv list.discI nth_Cons_0)
  have "\<forall>i<length xs. P (xs ! i) \<longrightarrow> Q (ys ! i)"
  proof (intro allI impI)
    fix i assume "i < length xs" "P (xs ! i)"
    then show "Q (ys ! i)" using Cons.prems[rule_format, of "Suc i"] by simp
  qed
  then have "length (filter P xs) \<le> length (filter Q ys)" by (rule Cons.IH)
  then show ?case using hd by auto
qed

lemma run_tasks_all_done:
  "\<forall>i\<in>set sched. \<not> (i < length tasks \<and> i \<notin> fst ` set fin)
     \<Longrightarrow> run_tasks sched tasks fin w = (w, Inr fin)"
  by (induction sched) auto

lemma run_tasks_single:
  "run_tasks (sched @ [0]) [t] [] w
     = (case t w of (w1, Inl e) \<Rightarrow> (w1, Inl e) | (w1, Inr r) \<Rightarrow> (w1, Inr [(0, r)]))"
proof (induction sched)
  case Nil
  then show ?case by (auto split: prod.splits sum.splits)
next
  case (Cons i sched)
  show ?case
  proof (cases "i = 0")
    case True
    obtain w1 res where t: "t w = (w1, res)" by (cases "t w")
    show ?thesis
    proof (cases res)
      case (Inl e)
      then show ?thesis using True t by simp
    next
      case (Inr r)
      have "run_tasks (sched @ [0]) [t] [(0, r)] w1 = (w1, Inr [(0, r)])"
        by (rule run_tasks_all_done) auto
      then show ?thesis using True t Inr by simp
    qed
  next
    case False
    then show ?thesis using Cons by simp
  qed
qed

lemma gather_single:
  "gather sched [t] w = (case t w of (w1, Inl e) \<Rightarrow> (w1, Inl e) | (w1, Inr r) \<Rightarrow> (w1, Inr [r]))"
  using run_tasks_single[of sched t w]
  by (auto simp: gather_def split: prod.splits sum.splits)

section \<open>Failed descriptions, missing filenames, the bytes written\<close>

lemma download_all_files_Inr:
  assumes "download_all_files db schedule s file_uuids number w = (w', Inr u)"
  shows "\<exists>w1 rs. async_requester schedule s file_uuids (download_pdf db) w = (w1, Inr rs)
           \<and> w' = print (SuccessfulDownloads (length (filter py_truthy rs)) (length file_uuids) number) w1"
  using assms by (auto simp: download_all_files_def Let_def split: prod.splits sum.splits)

lemma download_all_files_Inl:
  assumes "download_all_files db schedule s file_uuids number w = (w', Inl e)"
  shows "async_requester schedule s file_uuids (download_pdf db) w = (w', Inl e)"
  using assms by (auto simp: download_all_files_def Let_def split: prod.splits sum.splits)

lemma download_pdf_truthy_status:
  assumes "snd (download_pdf db s file_uuid w) = Inr r" and "py_truthy r"
  shows "status (http_get s (SpecialProjectDownload file_uuid)) = 200"
proof (rule ccontr)
  assume "status (http_get s (SpecialProjectDownload file_uuid)) \<noteq> 200"
  from download_pdf_failed[OF this, of db w] assms show False by simp
qed

lemma download_pdf_raise_status:
  assumes "download_pdf db s file_uuid w = (w', Inl e)"
  shows "status (http_get s (SpecialProjectDownload file_uuid)) = 200"
proof (rule ccontr)
  assume "status (http_get s (SpecialProjectDownload file_uuid)) \<noteq> 200"
  from download_pdf_failed[OF this, of db w] assms show False by simp
qed

text \<open>
  C8. When the description request of an identifier has a status other than 200,
  \<open>download_pdf\<close> prints the error line and the diagnostic log (cookies, status, headers,
  body text, final URL, then one line per redirect), touches no file, and returns \<open>None\<close>,
  which is falsy. In a run of the download stage that returns, the number of successful
  downloads printed is at most the number of identifiers whose description request had
  status 200; and an exception that ends the stage never comes from a failed description
  request.
\<close>

theorem download_failure_contract:
  "(status (http_get s (SpecialProjectDownload file_uuid)) \<noteq> 200 \<longrightarrow>
      download_pdf db s file_uuid w =
        (w\<lparr>sent := sent w @ [SpecialProjectDownload file_uuid],
           stdout := stdout w
             @ [ErrorLoading (status (http_get s (SpecialProjectDownload file_uuid))),
                InfoRequestLog (cookie_jar s (SpecialProjectDownload file_uuid))
                  (status (http_get s (SpecialProjectDownload file_uuid)))
                  (headers (http_get s (SpecialProjectDownload file_uuid)))
                  (text_body (http_get s (SpecialProjectDownload file_uuid)))
                  (resp_url (http_get s (SpecialProjectDownload file_uuid)))]
             @ map (\<lambda>redirect. RedirectLine (fst redirect) (snd redirect))
                 (history (http_get s (SpecialProjectDownload file_uuid)))\<rparr>,
         Inr PNone)
      \<and> \<not> py_truthy PNone)
   \<and> (\<forall>w'. download_all_files db schedule s file_uuids number w = (w', Inr ()) \<longrightarrow>
         (\<exists>k. last (stdout w') = SuccessfulDownloads k (length file_uuids) number
            \<and> k \<le> length (filter (\<lambda>u. status (http_get s (SpecialProjectDownload u)) = 200)
                          file_uuids)))
   \<and> (\<forall>w' e. download_all_files db schedule s file_uuids number w = (w', Inl e) \<longrightarrow>
         (\<exists>i<length file_uuids.
            status (http_get s (SpecialProjectDownload (file_uuids ! i))) = 200))"
proof (intro conjI allI impI)
  assume "status (http_get s (SpecialProjectDownload file_uuid)) \<noteq> 200"
  then show "download_pdf db s file_uuid w =
        (w\<lparr>sent := sent w @ [SpecialProjectDownload file_uuid],
           stdout := stdout w
             @ [ErrorLoading (status (http_get s (SpecialProjectDownload file_uuid))),
                InfoRequestLog (cookie_jar s (SpecialProjectDownload file_uuid))
                  (status (http_get s (SpecialProjectDownload file_uuid)))
                  (headers (http_get s (SpecialProjectDownload file_uuid)))
                  (text_body (http_get s (SpecialProjectDownload file_uuid)))
                  (resp_url (http_get s (SpecialProjectDownload file_uuid)))]
             @ map (\<lambda>redirect. RedirectLine (fst redirect) (snd redirect))
                 (history (http_get s (SpecialProjectDownload file_uuid)))\<rparr>,
         Inr PNone)"
    by (rule download_pdf_failed)
next
  show "\<not> py_truthy PNone" by simp
next
  fix w'
  assume a: "download_all_files db schedule s file_uuids number w = (w', Inr ())"
  from download_all_files_Inr[OF a] obtain w1 rs
    where r: "async_requester schedule s file_uuids (download_pdf db) w = (w1, Inr rs)"
      and w': "w' = print (SuccessfulDownloads (length (filter py_truthy rs)) (length file_uuids) number) w1"
    by blast
  from async_requester_nth[OF r]
  have len: "length rs = length file_uuids"
    and nth: "\<forall>i<length file_uuids. \<exists>w0. snd (download_pdf db s (file_uuids ! i) w0) = Inr (rs ! i)"
    by simp_all
  have "\<forall>i<length rs. py_truthy (rs ! i)
          \<longrightarrow> status (http_get s (SpecialProjectDownload (file_uuids ! i))) = 200"
    using nth len download_pdf_truthy_status by metis
  from filter_length_pointwise[OF len this]
  have "length (filter py_truthy rs)
          \<le> length (filter (\<lambda>u. status (http_get s (SpecialProjectDownload u)) = 200) file_uuids)" .
  moreover have "last (stdout w')
      = SuccessfulDownloads (length (filter py_truthy rs)) (length file_uuids) number"
    by (simp add: w' print_def)
  ultimately show "\<exists>k. last (stdout w') = SuccessfulDownloads k (length file_uuids) number
            \<and> k \<le> length (filter (\<lambda>u. status (http_get s (SpecialProjectDownload u)) = 200)
                          file_uuids)" by blast
next
  fix w' e
  assume a: "download_all_files db schedule s file_uuids number w = (w', Inl e)"
  from async_requester_raised[OF download_all_files_Inl[OF a]]
  obtain i w0 where "i < length file_uuids" "download_pdf db s (file_uuids ! i) w0 = (w', Inl e)"
    by blast
  then show "\<exists>i<length file_uuids.
            status (http_get s (SpecialProjectDownload (file_uuids ! i))) = 200"
    using download_pdf_raise_status by blast
qed

lemma demo_failed_run:
  "snd (download_all_files latin1_db [1, 0] demo [PStr (pystr ''p9''), PStr (pystr ''p1'')] 1 empty_world)
     = Inr ()
   \<and> stdout (fst (download_all_files latin1_db [1, 0] demo
                    [PStr (pystr ''p9''), PStr (pystr ''p1'')] 1 empty_world))
     = [ErrorLoading 404,
        InfoRequestLog [(pystr ''kgws_lkp'', pystr ''secret'')] 404 [] (pystr ''not found'')
          (pystr ''/error''),
        RedirectLine (pystr ''/api/claim/special_project/download'') 302,
        SuccessfulDownloads 1 2 1]"
  by code_simp


text \<open>
  The unknown special project \<open>p9\<close> of the example service, alone and next to \<open>p1\<close>.
\<close>

theorem download_failure_contract_witness:
  "status (http_get demo (SpecialProjectDownload (PStr (pystr ''p9'')))) \<noteq> 200
   \<and> snd (download_pdf latin1_db demo (PStr (pystr ''p9'')) empty_world) = Inr PNone
   \<and> files (fst (download_pdf latin1_db demo (PStr (pystr ''p9'')) empty_world)) = Map.empty
   \<and> stdout (fst (download_pdf latin1_db demo (PStr (pystr ''p9'')) empty_world))
       = [ErrorLoading 404,
          InfoRequestLog [(pystr ''kgws_lkp'', pystr ''secret'')] 404 [] (pystr ''not found'')
            (pystr ''/error''),
          RedirectLine (pystr ''/api/claim/special_project/download'') 302]
   \<and> snd (download_all_files latin1_db [1, 0] demo [PStr (pystr ''p9''), PStr (pystr ''p1'')] 1
            empty_world) = Inr ()
   \<and> last (stdout (fst (download_all_files latin1_db [1, 0] demo
                          [PStr (pystr ''p9''), PStr (pystr ''p1'')] 1 empty_world)))
       = SuccessfulDownloads 1 2 1"
proof -
  have h: "status (http_get demo (SpecialProjectDownload (PStr (pystr ''p9'')))) \<noteq> 200"
    by (simp add: demo_def ok_response_def pystr_def)
  from download_failure_contract[where s = demo and file_uuid = "PStr (pystr ''p9'')"
         and db = latin1_db and w = empty_world] h
  have "download_pdf latin1_db demo (PStr (pystr ''p9'')) empty_world =
        (empty_world\<lparr>sent := sent empty_world @ [SpecialProjectDownload (PStr (pystr ''p9''))],
           stdout := stdout empty_world
             @ [ErrorLoading (status (http_get demo (SpecialProjectDownload (PStr (pystr ''p9''))))),
                InfoRequestLog (cookie_jar demo (SpecialProjectDownload (PStr (pystr ''p9''))))
                  (status (http_get demo (SpecialProjectDownload (PStr (pystr ''p9'')))))
                  (headers (http_get demo (SpecialProjectDownload (PStr (pystr ''p9'')))))
                  (text_body (http_get demo (SpecialProjectDownload (PStr (pystr ''p9'')))))
                  (resp_url (http_get demo (SpecialProjectDownload (PStr (pystr ''p9'')))))]
             @ map (\<lambda>redirect. RedirectLine (fst redirect) (snd redirect))
                 (history (http_get demo (SpecialProjectDownload (PStr (pystr ''p9'')))))\<rparr>,
         Inr PNone)"
    by blast
  then have "snd (download_pdf latin1_db demo (PStr (pystr ''p9'')) empty_world) = Inr PNone"
    and "files (fst (download_pdf latin1_db demo (PStr (pystr ''p9'')) empty_world)) = Map.empty"
    and "stdout (fst (download_pdf latin1_db demo (PStr (pystr ''p9'')) empty_world))
       = [ErrorLoading 404,
          InfoRequestLog [(pystr ''kgws_lkp'', pystr ''secret'')] 404 [] (pystr ''not found'')
            (pystr ''/error''),
          RedirectLine (pystr ''/api/claim/special_project/download'') 302]"
    by (simp_all add: demo_def ok_response_def pystr_def empty_world_def)
  then show ?thesis using h demo_failed_run by simp
qed

text \<open>
  C9. When the storage response has no \<open>Content-Disposition\<close> header, or the header has no
  \<open>filename\<close> token or no match, the resolution returns no filename and \<open>download_pdf\<close>
  returns \<open>None\<close> without an exception: the world changes by the two requests only, so no
  directory is made, no file is written and nothing is printed. The download stage counts it
  as not successful.
\<close>

theorem missing_filename_skips_download:
  assumes st: "status (http_get s (SpecialProjectDownload file_uuid)) = 200"
      and js: "json_body (http_get s (SpecialProjectDownload file_uuid)) = Inr json"
      and su: "py_item json (pystr ''store_uuid'') = Inr store_uuid"
      and nf: "map_of (headers (http_get s (Docstore store_uuid))) ''Content-Disposition'' = None
               \<or> (\<exists>cd. map_of (headers (http_get s (Docstore store_uuid))) ''Content-Disposition''
                          = Some cd
                        \<and> (\<not> py_in (pystr ''filename'') cd \<or> findall_filename cd = []))"
  shows "snd (get_filename_from_response_headers db s store_uuid w0) = None
       \<and> download_pdf db s file_uuid w
           = (w\<lparr>sent := sent w @ [SpecialProjectDownload file_uuid, Docstore store_uuid]\<rparr>,
              Inr PNone)
       \<and> \<not> py_truthy PNone
       \<and> download_all_files db schedule s [file_uuid] number w
           = (w\<lparr>sent := sent w @ [SpecialProjectDownload file_uuid, Docstore store_uuid],
                stdout := stdout w @ [SuccessfulDownloads 0 1 number]\<rparr>,
              Inr ())"
proof -
  have none: "filename_of db s store_uuid = None"
    using nf
    by (auto simp: filename_of_def get_filename_from_response_headers_def session_get_def Let_def
             split: option.splits list.splits)
  then have g: "snd (get_filename_from_response_headers db s store_uuid w0) = None"
    by (simp add: get_filename_eq)
  have d: "download_pdf db s file_uuid w
           = (w\<lparr>sent := sent w @ [SpecialProjectDownload file_uuid, Docstore store_uuid]\<rparr>,
              Inr PNone)"
    by (rule download_pdf_no_name[OF st js su none])
  have "download_all_files db schedule s [file_uuid] number w
           = (w\<lparr>sent := sent w @ [SpecialProjectDownload file_uuid, Docstore store_uuid],
                stdout := stdout w @ [SuccessfulDownloads 0 1 number]\<rparr>,
              Inr ())"
    by (simp add: download_all_files_def async_requester_def gather_single d print_def)
  then show ?thesis using g d by simp
qed

text \<open>
  The special project \<open>p2\<close> of the example service, whose store sends no header.
\<close>

theorem missing_filename_skips_download_witness:
  "snd (get_filename_from_response_headers latin1_db demo (PStr (pystr ''s2'')) empty_world) = None
   \<and> download_pdf latin1_db demo (PStr (pystr ''p2'')) empty_world
       = (empty_world\<lparr>sent := [SpecialProjectDownload (PStr (pystr ''p2'')),
                                 Docstore (PStr (pystr ''s2''))]\<rparr>, Inr PNone)"
proof -
  have st: "status (http_get demo (SpecialProjectDownload (PStr (pystr ''p2'')))) = 200"
    by (simp add: demo_def ok_response_def store_description_def pystr_def)
  have js: "json_body (http_get demo (SpecialProjectDownload (PStr (pystr ''p2''))))
              = Inr (PDict [(pystr ''store_uuid'', PStr (pystr ''s2''))])"
    by (simp add: demo_def ok_response_def store_description_def pystr_def)
  have su: "py_item (PDict [(pystr ''store_uuid'', PStr (pystr ''s2''))]) (pystr ''store_uuid'')
              = Inr (PStr (pystr ''s2''))"
    by simp
  have nf: "map_of (headers (http_get demo (Docstore (PStr (pystr ''s2''))))) ''Content-Disposition''
              = None
            \<or> (\<exists>cd. map_of (headers (http_get demo (Docstore (PStr (pystr ''s2'')))))
                        ''Content-Disposition'' = Some cd
                     \<and> (\<not> py_in (pystr ''filename'') cd \<or> findall_filename cd = []))"
    by (simp add: demo_def ok_response_def pystr_def)
  from missing_filename_skips_download[OF st js su nf, of latin1_db empty_world empty_world]
  show ?thesis by (simp add: empty_world_def)
qed

text \<open>
  C2 at the special project \<open>p1\<close> of the example service: the download succeeds and the
  file \<open>a_b_c_.pdf\<close> is created with no bytes, although the store serves the bytes of
  \<open>%PDF-1.4\<close>. The chunks are read from the response of the description request, whose
  stream \<open>response.json()\<close> has already read to its end, not from the storage response.
\<close>

theorem download_writes_exhausted_stream:
  "snd (download_pdf latin1_db demo (PStr (pystr ''p1'')) empty_world) = Inr (PBool True)
   \<and> files (fst (download_pdf latin1_db demo (PStr (pystr ''p1'')) empty_world))
        (pystr ''a_b_c_.pdf'') = Some []
   \<and> sent (fst (download_pdf latin1_db demo (PStr (pystr ''p1'')) empty_world))
        = [SpecialProjectDownload (PStr (pystr ''p1'')), Docstore (PStr (pystr ''s1''))]
   \<and> content (http_get demo (Docstore (PStr (pystr ''s1'')))) = pystr ''%PDF-1.4''"
  by code_simp

section \<open>The download stage and the files on disk\<close>

lemma download_pdf_branches:
  obtains (failed) "status (http_get s (SpecialProjectDownload u)) \<noteq> 200"
  | (raised) e where
      "\<forall>w. download_pdf db s u w = (w\<lparr>sent := sent w @ [SpecialProjectDownload u]\<rparr>, Inl e)"
  | (noname) su where
      "\<forall>w. download_pdf db s u w
            = (w\<lparr>sent := sent w @ [SpecialProjectDownload u, Docstore su]\<rparr>, Inr PNone)"
  | (target) su name where
      "\<forall>w. path_exists w name \<longrightarrow> download_pdf db s u w
            = (w\<lparr>dir_exists := True,
                 sent := sent w @ [SpecialProjectDownload u, Docstore su],
                 stdout := stdout w @ [AlreadyExists name]\<rparr>, Inr PNone)"
      "\<forall>w. \<not> path_exists w name \<longrightarrow> download_pdf db s u w
            = (w\<lparr>dir_exists := True,
                 files := (files w)(name \<mapsto> []),
                 opened := opened w @ [name],
                 sent := sent w @ [SpecialProjectDownload u, Docstore su]\<rparr>, Inr (PBool True))"
proof (cases "status (http_get s (SpecialProjectDownload u)) = 200")
  case False
  then show ?thesis by (rule failed)
next
  case st: True
  show ?thesis
  proof (cases "json_body (http_get s (SpecialProjectDownload u))")
    case (Inl e)
    show ?thesis by (rule raised[of e]) (simp add: download_pdf_json_error[OF st Inl])
  next
    case js: (Inr json)
    show ?thesis
    proof (cases "py_item json (pystr ''store_uuid'')")
      case (Inl e)
      show ?thesis by (rule raised[of e]) (simp add: download_pdf_store_error[OF st js Inl])
    next
      case su: (Inr su)
      show ?thesis
      proof (cases "filename_of db s su")
        case None
        show ?thesis by (rule noname[of su]) (simp add: download_pdf_no_name[OF st js su None])
      next
        case (Some name)
        show ?thesis
        proof (rule target[of name su])
          show "\<forall>w. path_exists w name \<longrightarrow> download_pdf db s u w
            = (w\<lparr>dir_exists := True,
                 sent := sent w @ [SpecialProjectDownload u, Docstore su],
                 stdout := stdout w @ [AlreadyExists name]\<rparr>, Inr PNone)"
            using download_pdf_exists[OF st js su Some] by blast
          show "\<forall>w. \<not> path_exists w name \<longrightarrow> download_pdf db s u w
            = (w\<lparr>dir_exists := True,
                 files := (files w)(name \<mapsto> []),
                 opened := opened w @ [name],
                 sent := sent w @ [SpecialProjectDownload u, Docstore su]\<rparr>, Inr (PBool True))"
            using download_pdf_new[OF st js su Some] by blast
        qed
      qed
    qed
  qed
qed

lemma grows_refl: "grows w w"
  by (simp add: grows_def)

lemma grows_trans: "grows a b \<Longrightarrow> grows b c \<Longrightarrow> grows a c"
  by (simp add: grows_def)

lemma path_exists_grows: "path_exists w name \<Longrightarrow> grows w w' \<Longrightarrow> path_exists w' name"
  by (auto simp: path_exists_def grows_def)

lemma download_pdf_grows: "grows w (fst (download_pdf db s u w))"
proof (cases rule: download_pdf_branches[where s = s and u = u and db = db])
  case failed
  then show ?thesis by (simp add: download_pdf_failed grows_def)
next
  case (raised e)
  then show ?thesis by (simp add: grows_def)
next
  case (noname su)
  then show ?thesis by (simp add: grows_def)
next
  case (target su name)
  show ?thesis
  proof (cases "path_exists w name")
    case True
    then show ?thesis using target(1) by (simp add: grows_def)
  next
    case False
    then have "files w name = None" by (simp add: path_exists_def)
    then show ?thesis using target(2) False by (auto simp: grows_def)
  qed
qed

lemma download_pdf_then_quiet:
  assumes d: "download_pdf db s u w = (w', Inr r)" and g: "grows w' w2"
  shows "quiet db s u w2"
proof (cases rule: download_pdf_branches[where s = s and u = u and db = db])
  case failed
  then show ?thesis by (simp add: download_pdf_failed quiet_def)
next
  case (raised e)
  then show ?thesis using d by simp
next
  case (noname su)
  then show ?thesis by (simp add: quiet_def)
next
  case (target su name)
  have "path_exists w' name \<and> dir_exists w'"
  proof (cases "path_exists w name")
    case True
    then show ?thesis using target(1) d by (auto simp: path_exists_def)
  next
    case False
    then show ?thesis using target(2) d by (auto simp: path_exists_def)
  qed
  then have "path_exists w2 name" "dir_exists w2" using g path_exists_grows by (auto simp: grows_def)
  then show ?thesis using target(1) by (simp add: quiet_def)
qed

text \<open>Relations and invariants carried through a run of the tasks.\<close>

lemma run_tasks_keys:
  assumes "run_tasks sched tasks fin w = (w', Inr fin')"
  shows "map fst fin' = map fst fin @ fresh sched (map fst fin) (length tasks)"
proof -
  from run_tasks_Inr[OF assms]
  have "map (\<lambda>p. (fst p, Inr (snd p) :: error + 'b)) fin'
        = map (\<lambda>p. (fst p, Inr (snd p))) fin @ outcomes (fresh sched (map fst fin) (length tasks)) tasks w"
    by simp
  then have "map fst (map (\<lambda>p. (fst p, Inr (snd p) :: error + 'b)) fin')
        = map fst (map (\<lambda>p. (fst p, Inr (snd p) :: error + 'b)) fin
                   @ outcomes (fresh sched (map fst fin) (length tasks)) tasks w)"
    by (rule arg_cong)
  then show ?thesis by (simp add: comp_def outcomes_fst)
qed

lemma run_tasks_rel:
  assumes step: "\<And>i u. i < length tasks \<Longrightarrow> R u (fst ((tasks ! i) u))"
      and refl: "\<And>u. R u u"
      and trans: "\<And>a b c. R a b \<Longrightarrow> R b c \<Longrightarrow> R a c"
  shows "R w (fst (run_tasks sched tasks fin w))"
proof (induction sched arbitrary: fin w)
  case Nil
  then show ?case by (simp add: refl)
next
  case (Cons i sched)
  show ?case
  proof (cases "i < length tasks \<and> i \<notin> fst ` set fin")
    case False
    have skip: "run_tasks (i # sched) tasks fin w = run_tasks sched tasks fin w"
      by (simp only: run_tasks.simps if_not_P[OF False])
    show ?thesis unfolding skip by (rule Cons.IH)
  next
    case True
    obtain w1 res where t: "(tasks ! i) w = (w1, res)" by (cases "(tasks ! i) w")
    have r1: "R w w1" using step[of i w] True t by simp
    show ?thesis
    proof (cases res)
      case (Inl e)
      then show ?thesis using True t r1 by simp
    next
      case (Inr r)
      have "R w1 (fst (run_tasks sched tasks (fin @ [(i, r)]) w1))" by (rule Cons.IH)
      then have "R w (fst (run_tasks sched tasks (fin @ [(i, r)]) w1))" using r1 trans by blast
      then show ?thesis using True t Inr by simp
    qed
  qed
qed

lemma run_tasks_post:
  assumes step: "\<And>i u u' r. i < length tasks \<Longrightarrow> (tasks ! i) u = (u', Inr r) \<Longrightarrow> R u u' \<and> Q i u'"
      and refl: "\<And>u. R u u"
      and trans: "\<And>a b c. R a b \<Longrightarrow> R b c \<Longrightarrow> R a c"
      and stable: "\<And>i a b. Q i a \<Longrightarrow> R a b \<Longrightarrow> Q i b"
  shows "run_tasks sched tasks fin w = (w', Inr fin') \<Longrightarrow> \<forall>i\<in>fst ` set fin. Q i w
           \<Longrightarrow> R w w' \<and> (\<forall>i\<in>fst ` set fin'. Q i w')"
proof (induction sched arbitrary: fin w)
  case Nil
  then show ?case by (simp add: refl)
next
  case (Cons i sched)
  show ?case
  proof (cases "i < length tasks \<and> i \<notin> fst ` set fin")
    case False
    have skip: "run_tasks (i # sched) tasks fin w = run_tasks sched tasks fin w"
      by (simp only: run_tasks.simps if_not_P[OF False])
    show ?thesis using Cons.IH[of fin w] Cons.prems unfolding skip by blast
  next
    case True
    obtain w1 res where t: "(tasks ! i) w = (w1, res)" by (cases "(tasks ! i) w")
    show ?thesis
    proof (cases res)
      case (Inl e)
      then show ?thesis using Cons.prems(1) True t by simp
    next
      case (Inr r)
      have run: "run_tasks sched tasks (fin @ [(i, r)]) w1 = (w', Inr fin')"
        using Cons.prems(1) True t Inr by simp
      have s1: "R w w1" "Q i w1" using step[of i w w1 r] True t Inr by simp_all
      have "\<forall>j\<in>fst ` set (fin @ [(i, r)]). Q j w1"
        using Cons.prems(2) s1 stable by auto
      from Cons.IH[OF run this] have "R w1 w'" "\<forall>i\<in>fst ` set fin'. Q i w'" by simp_all
      then show ?thesis using s1(1) trans by blast
    qed
  qed
qed

lemma run_tasks_invariant:
  assumes step: "\<And>i u. i < length tasks \<Longrightarrow> I u \<Longrightarrow> \<exists>u'. (tasks ! i) u = (u', Inr c) \<and> I u'"
  shows "I w \<Longrightarrow> \<forall>p\<in>set fin. snd p = c
           \<Longrightarrow> \<exists>w' fin'. run_tasks sched tasks fin w = (w', Inr fin') \<and> I w' \<and> (\<forall>p\<in>set fin'. snd p = c)"
proof (induction sched arbitrary: fin w)
  case Nil
  then show ?case by simp
next
  case (Cons i sched)
  show ?case
  proof (cases "i < length tasks \<and> i \<notin> fst ` set fin")
    case False
    have skip: "run_tasks (i # sched) tasks fin w = run_tasks sched tasks fin w"
      by (simp only: run_tasks.simps if_not_P[OF False])
    show ?thesis unfolding skip using Cons.IH[OF Cons.prems] .
  next
    case True
    from step[of i w] True Cons.prems(1)
    obtain w1 where t: "(tasks ! i) w = (w1, Inr c)" and i1: "I w1" by blast
    have "\<forall>p\<in>set (fin @ [(i, c)]). snd p = c" using Cons.prems(2) by simp
    from Cons.IH[OF i1 this] show ?thesis using True t by simp
  qed
qed

lemma gather_rel:
  assumes step: "\<And>i u. i < length tasks \<Longrightarrow> R u (fst ((tasks ! i) u))"
      and refl: "\<And>u. R u u"
      and trans: "\<And>a b c. R a b \<Longrightarrow> R b c \<Longrightarrow> R a c"
  shows "R w (fst (gather sched tasks w))"
proof -
  have "R w (fst (run_tasks (sched @ [0..<length tasks]) tasks [] w))"
    using step refl trans by (rule run_tasks_rel)
  moreover have "fst (gather sched tasks w) = fst (run_tasks (sched @ [0..<length tasks]) tasks [] w)"
    by (simp add: gather_def split: prod.splits sum.splits)
  ultimately show ?thesis by simp
qed

lemma gather_post:
  assumes g: "gather sched tasks w = (w', Inr rs)"
      and step: "\<And>i u u' r. i < length tasks \<Longrightarrow> (tasks ! i) u = (u', Inr r) \<Longrightarrow> R u u' \<and> Q i u'"
      and refl: "\<And>u. R u u"
      and trans: "\<And>a b c. R a b \<Longrightarrow> R b c \<Longrightarrow> R a c"
      and stable: "\<And>i a b. Q i a \<Longrightarrow> R a b \<Longrightarrow> Q i b"
  shows "\<forall>i<length tasks. Q i w'"
proof -
  obtain fin where run: "run_tasks (sched @ [0..<length tasks]) tasks [] w = (w', Inr fin)"
    using g by (auto simp: gather_def split: prod.splits sum.splits)
  have "\<forall>i\<in>fst ` set ([] :: (nat \<times> 'b) list). Q i w" by simp
  from run_tasks_post[of tasks R Q, OF step refl trans stable run this]
  have q: "\<forall>i\<in>fst ` set fin. Q i w'" by simp
  from run_tasks_keys[OF run]
  have "map fst fin = completion_order sched (length tasks)" by (simp add: completion_order_def)
  then have "set (map fst fin) = {..<length tasks}" by (simp add: completion_order_set)
  then have "fst ` set fin = {..<length tasks}" by simp
  then show ?thesis using q by simp
qed

lemma gather_invariant:
  assumes i: "I w"
      and step: "\<And>i u. i < length tasks \<Longrightarrow> I u \<Longrightarrow> \<exists>u'. (tasks ! i) u = (u', Inr c) \<and> I u'"
  shows "\<exists>w' rs. gather sched tasks w = (w', Inr rs) \<and> I w' \<and> length rs = length tasks
            \<and> (\<forall>r\<in>set rs. r = c)"
proof -
  have "\<forall>p\<in>set ([] :: (nat \<times> 'b) list). snd p = c" by simp
  from run_tasks_invariant[of tasks I c, OF step i this]
  obtain w' fin where run: "run_tasks (sched @ [0..<length tasks]) tasks [] w = (w', Inr fin)"
    and i': "I w'" and c: "\<forall>p\<in>set fin. snd p = c" by blast
  have g: "gather sched tasks w = (w', Inr (map snd (sort_key fst fin)))"
    using run by (simp add: gather_def)
  have "length (map snd (sort_key fst fin)) = length tasks"
    using gather_Inr[OF g] by blast
  moreover have "\<forall>r\<in>set (map snd (sort_key fst fin)). r = c" using c by simp
  ultimately show ?thesis using g i' by blast
qed

lemma download_stage_grows:
  "grows w (fst (download_all_files db schedule s file_uuids number w))"
proof -
  let ?tasks = "map (\<lambda>arg. download_pdf db s arg) file_uuids"
  have "grows w (fst (gather schedule ?tasks w))"
  proof (rule gather_rel[where R = grows])
    fix i and u :: world assume "i < length ?tasks"
    then show "grows u (fst ((?tasks ! i) u))" by (simp add: download_pdf_grows)
  qed (auto intro: grows_refl grows_trans)
  moreover have "grows (fst (gather schedule ?tasks w))
                   (fst (download_all_files db schedule s file_uuids number w))"
    by (auto simp: download_all_files_def async_requester_def grows_def print_def Let_def
             split: prod.splits sum.splits)
  ultimately show ?thesis by (rule grows_trans)
qed

lemma download_stage_second_run:
  assumes first: "download_all_files db schedule s file_uuids number w = (w1, Inr ())"
  shows "\<exists>w2. download_all_files db schedule_b s file_uuids number_b w1 = (w2, Inr ())
           \<and> dir_exists w2 = dir_exists w1 \<and> files w2 = files w1 \<and> opened w2 = opened w1
           \<and> last (stdout w2) = SuccessfulDownloads 0 (length file_uuids) number_b"
proof -
  let ?tasks = "map (\<lambda>arg. download_pdf db s arg) file_uuids"
  let ?Q = "\<lambda>i (u :: world). \<forall>w2. grows u w2 \<longrightarrow> quiet db s (file_uuids ! i) w2"
  from download_all_files_Inr[OF first] obtain wa rs
    where r: "async_requester schedule s file_uuids (download_pdf db) w = (wa, Inr rs)"
      and w1: "w1 = print (SuccessfulDownloads (length (filter py_truthy rs)) (length file_uuids) number) wa"
    by blast
  have g: "gather schedule ?tasks w = (wa, Inr rs)" using r by (simp add: async_requester_def)
  have q: "\<forall>i<length ?tasks. ?Q i wa"
  proof (rule gather_post[of schedule ?tasks w wa rs grows ?Q, OF g])
    fix i u u' r
    assume i: "i < length ?tasks" and t: "(?tasks ! i) u = (u', Inr r)"
    then have d: "download_pdf db s (file_uuids ! i) u = (u', Inr r)" by simp
    have "grows u u'" using download_pdf_grows[of u db s "file_uuids ! i"] d by simp
    moreover have "?Q i u'" using download_pdf_then_quiet[OF d] by blast
    ultimately show "grows u u' \<and> ?Q i u'" by blast
  next
    fix u show "grows u u" by (rule grows_refl)
  next
    fix a b c assume "grows a b" "grows b c" then show "grows a c" by (rule grows_trans)
  next
    fix i a b assume "?Q i a" "grows a b"
    then show "?Q i b" using grows_trans by blast
  qed
  let ?I = "\<lambda>u :: world. dir_exists u = dir_exists w1 \<and> files u = files w1 \<and> opened u = opened w1"
  have ga: "grows wa u" if "?I u" for u
    using that by (simp add: w1 print_def grows_def)
  have "\<exists>w' rs'. gather schedule_b ?tasks w1 = (w', Inr rs') \<and> ?I w' \<and> length rs' = length ?tasks
            \<and> (\<forall>r\<in>set rs'. r = PNone)"
  proof (rule gather_invariant[of ?I w1 ?tasks PNone schedule_b])
    show "?I w1" by simp
  next
    fix i and u :: world assume i: "i < length ?tasks" and iu: "?I u"
    have "quiet db s (file_uuids ! i) u" using q i ga[OF iu] by blast
    then have "snd (download_pdf db s (file_uuids ! i) u) = Inr PNone"
      and "?I (fst (download_pdf db s (file_uuids ! i) u))"
      using iu by (simp_all add: quiet_def)
    then have "(?tasks ! i) u = (fst (download_pdf db s (file_uuids ! i) u), Inr PNone)
                 \<and> ?I (fst (download_pdf db s (file_uuids ! i) u))"
      using i by (simp add: prod_eq_iff)
    then show "\<exists>u'. (?tasks ! i) u = (u', Inr PNone) \<and> ?I u'" by blast
  qed
  then obtain w' rs' where g2: "gather schedule_b ?tasks w1 = (w', Inr rs')" and i': "?I w'"
    and len: "length rs' = length file_uuids" and none: "\<forall>r\<in>set rs'. r = PNone"
    by auto
  have "filter py_truthy rs' = []" using none by (auto simp: filter_empty_conv)
  then have "download_all_files db schedule_b s file_uuids number_b w1
               = (print (SuccessfulDownloads 0 (length file_uuids) number_b) w', Inr ())"
    using g2 by (simp add: download_all_files_def async_requester_def)
  then show ?thesis using i' by (simp add: print_def)
qed

text \<open>
  C6. When the resolved name already exists in the download directory, \<open>download_pdf\<close>
  prints the "already exists" line and returns \<open>None\<close> (falsy, so not counted), and changes
  no file: the world differs by the directory flag, the two requests and that line only.
  A run of the download stage, whatever its schedule and outcome, leaves every file that was
  on disk with the bytes it had. And after a run that returned, a second run with the same
  identifiers, under any schedule, returns as well, opens no file for writing, leaves the
  files and the directory as they were, and prints zero successful downloads.
\<close>

theorem download_stage_idempotent:
  "(status (http_get s (SpecialProjectDownload file_uuid)) = 200
      \<and> json_body (http_get s (SpecialProjectDownload file_uuid)) = Inr json
      \<and> py_item json (pystr ''store_uuid'') = Inr store_uuid
      \<and> snd (get_filename_from_response_headers db s store_uuid w0) = Some save_name
      \<and> path_exists w save_name
      \<longrightarrow> download_pdf db s file_uuid w
            = (w\<lparr>dir_exists := True,
                 sent := sent w @ [SpecialProjectDownload file_uuid, Docstore store_uuid],
                 stdout := stdout w @ [AlreadyExists save_name]\<rparr>, Inr PNone)
          \<and> \<not> py_truthy PNone)
   \<and> (\<forall>name bytes. files w name = Some bytes
         \<longrightarrow> files (fst (download_all_files db schedule s file_uuids number w)) name = Some bytes)
   \<and> (\<forall>w1. download_all_files db schedule s file_uuids number w = (w1, Inr ())
         \<longrightarrow> (\<exists>w2. download_all_files db schedule_b s file_uuids number_b w1 = (w2, Inr ())
                 \<and> dir_exists w2 = dir_exists w1 \<and> files w2 = files w1 \<and> opened w2 = opened w1
                 \<and> last (stdout w2) = SuccessfulDownloads 0 (length file_uuids) number_b))"
proof (intro conjI allI impI)
  assume a: "status (http_get s (SpecialProjectDownload file_uuid)) = 200
      \<and> json_body (http_get s (SpecialProjectDownload file_uuid)) = Inr json
      \<and> py_item json (pystr ''store_uuid'') = Inr store_uuid
      \<and> snd (get_filename_from_response_headers db s store_uuid w0) = Some save_name
      \<and> path_exists w save_name"
  then have "filename_of db s store_uuid = Some save_name" by (simp add: get_filename_eq)
  then show "download_pdf db s file_uuid w
            = (w\<lparr>dir_exists := True,
                 sent := sent w @ [SpecialProjectDownload file_uuid, Docstore store_uuid],
                 stdout := stdout w @ [AlreadyExists save_name]\<rparr>, Inr PNone)"
    using a download_pdf_exists by blast
next
  show "\<not> py_truthy PNone" by simp
next
  fix name bytes assume "files w name = Some bytes"
  then show "files (fst (download_all_files db schedule s file_uuids number w)) name = Some bytes"
    using download_stage_grows[of w db schedule s file_uuids number] by (simp add: grows_def)
next
  fix w1 assume "download_all_files db schedule s file_uuids number w = (w1, Inr ())"
  then show "\<exists>w2. download_all_files db schedule_b s file_uuids number_b w1 = (w2, Inr ())
                 \<and> dir_exists w2 = dir_exists w1 \<and> files w2 = files w1 \<and> opened w2 = opened w1
                 \<and> last (stdout w2) = SuccessfulDownloads 0 (length file_uuids) number_b"
    by (rule download_stage_second_run)
qed


lemma demo_two_runs:
  "snd (download_all_files latin1_db [2, 0] demo demo_uuids 1 empty_world) = Inr ()
   \<and> opened (fst (download_all_files latin1_db [2, 0] demo demo_uuids 1 empty_world))
       = [pystr ''a_b_c_.pdf'', 233 # pystr ''.pdf'']
   \<and> stdout (fst (download_all_files latin1_db [3, 1] demo demo_uuids 2
                    (fst (download_all_files latin1_db [2, 0] demo demo_uuids 1 empty_world))))
       = stdout (fst (download_all_files latin1_db [2, 0] demo demo_uuids 1 empty_world))
         @ [AlreadyExists (pystr ''a_b_c_.pdf''),
            AlreadyExists (233 # pystr ''.pdf''),
            AlreadyExists (pystr ''a_b_c_.pdf''),
            ErrorLoading 404,
            InfoRequestLog [(pystr ''kgws_lkp'', pystr ''secret'')] 404 [] (pystr ''not found'')
              (pystr ''/error''),
            RedirectLine (pystr ''/api/claim/special_project/download'') 302,
            SuccessfulDownloads 0 4 2]
   \<and> files (fst (download_pdf latin1_db demo (PStr (pystr ''p1'')) old_file_world))
        (pystr ''a_b_c_.pdf'') = Some [1, 2, 3]
   \<and> snd (download_pdf latin1_db demo (PStr (pystr ''p1'')) old_file_world) = Inr PNone"
  by code_simp

text \<open>
  Two runs of the download stage on the example service, and the download of \<open>p1\<close> when
  \<open>a_b_c_.pdf\<close> is already on disk with three bytes.
\<close>

theorem download_stage_idempotent_witness:
  "snd (download_all_files latin1_db [2, 0] demo demo_uuids 1 empty_world) = Inr ()
   \<and> opened (fst (download_all_files latin1_db [2, 0] demo demo_uuids 1 empty_world))
       = [pystr ''a_b_c_.pdf'', 233 # pystr ''.pdf'']
   \<and> snd (download_all_files latin1_db [3, 1] demo demo_uuids 2
            (fst (download_all_files latin1_db [2, 0] demo demo_uuids 1 empty_world))) = Inr ()
   \<and> opened (fst (download_all_files latin1_db [3, 1] demo demo_uuids 2
                    (fst (download_all_files latin1_db [2, 0] demo demo_uuids 1 empty_world))))
       = [pystr ''a_b_c_.pdf'', 233 # pystr ''.pdf'']
   \<and> last (stdout (fst (download_all_files latin1_db [3, 1] demo demo_uuids 2
                    (fst (download_all_files latin1_db [2, 0] demo demo_uuids 1 empty_world)))))
       = SuccessfulDownloads 0 4 2
   \<and> files (fst (download_pdf latin1_db demo (PStr (pystr ''p1'')) old_file_world))
        (pystr ''a_b_c_.pdf'') = Some [1, 2, 3]
   \<and> snd (download_pdf latin1_db demo (PStr (pystr ''p1'')) old_file_world) = Inr PNone"
proof -
  let ?run1 = "download_all_files latin1_db [2, 0] demo demo_uuids 1 empty_world"
  have first: "?run1 = (fst ?run1, Inr ())"
    using demo_two_runs by (simp add: prod_eq_iff)
  have len: "length demo_uuids = 4" by (simp add: demo_uuids_def)
  from download_stage_idempotent[where db = latin1_db and schedule = "[2, 0]" and s = demo
         and file_uuids = demo_uuids and number = 1 and w = empty_world
         and schedule_b = "[3, 1]" and number_b = 2] first
  obtain w2 where "download_all_files latin1_db [3, 1] demo demo_uuids 2 (fst ?run1) = (w2, Inr ())"
    and "opened w2 = opened (fst ?run1)"
    and "last (stdout w2) = SuccessfulDownloads 0 (length demo_uuids) 2"
    by blast
  then show ?thesis using demo_two_runs len by simp
qed

section \<open>The list of special-project identifiers\<close>

text \<open>
  C3 at the travel sheets \<open>u1\<close>, \<open>u2\<close>, \<open>u1\<close>, \<open>u4\<close>, \<open>u2\<close> of the example service: the
  resolver results are \<open>p1\<close>, \<open>None\<close>, \<open>p1\<close>, \<open>p2\<close>, \<open>None\<close>. Only the last element of
  \<open>list(set(responses))\<close> is tested against \<open>None\<close>: when the set is iterated as \<open>p2\<close>,
  \<open>None\<close>, \<open>p1\<close>, \<open>None\<close> stays in the list handed to the download stage; when it is
  iterated with \<open>None\<close> last, it is dropped.
\<close>

theorem none_not_dropped_when_not_last:
  "snd (get_all_file_uuids none_between [] demo
          [PStr (pystr ''u1''), PStr (pystr ''u2''), PStr (pystr ''u1''), PStr (pystr ''u4''),
           PStr (pystr ''u2'')] 1 empty_world)
     = Inr [PStr (pystr ''p2''), PNone, PStr (pystr ''p1'')]
   \<and> snd (get_all_file_uuids none_last [] demo
          [PStr (pystr ''u1''), PStr (pystr ''u2''), PStr (pystr ''u1''), PStr (pystr ''u4''),
           PStr (pystr ''u2'')] 1 empty_world)
     = Inr [PStr (pystr ''p1''), PStr (pystr ''p2'')]"
  by code_simp

lemma gather_no_tasks: "gather sched [] w = (w, Inr [])"
  by (simp add: gather_def run_tasks_all_done)

text \<open>
  C10. With no travel-sheet identifier, \<open>get_all_file_uuids\<close> prints the count of
  requests, 0 of 0, and raises \<open>IndexError\<close> at \<open>file_uuids[-1]\<close>: the line with the number of
  documents is not printed. So when the listing of an account returns no identifier,
  \<open>start_parser\<close> ends with that \<open>IndexError\<close>, before the download stage and the closing
  line.
\<close>

theorem no_travel_sheets_index_error:
  "get_all_file_uuids rank schedule s [] number w
     = (print (SuccessfulRequests 0 0 number) w, Inl IndexError)
   \<and> (get_all_travel_sheets_uuids s number default_limit (print (StartParsing number) w)
         = Some (w1, Inr [])
       \<longrightarrow> start_parser db rank schedule schedule_b s number w
             = Some (print (SuccessfulRequests 0 0 number) w1, Inl IndexError))"
proof -
  have a: "get_all_file_uuids rank schedule s [] number w
     = (print (SuccessfulRequests 0 0 number) w, Inl IndexError)" for w
    by (simp add: get_all_file_uuids_def async_requester_def gather_no_tasks list_of_set_def)
  then show ?thesis by (simp add: start_parser_def)
qed

text \<open>
  The account without travel sheets.
\<close>

theorem no_travel_sheets_index_error_witness:
  "get_all_travel_sheets_uuids no_sheets 1 default_limit (print (StartParsing 1) empty_world)
     = Some (empty_world\<lparr>sent := [Claims 1000],
                           stdout := [StartParsing 1, ReceivedAllTravelSheets 1]\<rparr>, Inr [])
   \<and> start_parser latin1_db none_last [] [] no_sheets 1 empty_world
     = Some (empty_world\<lparr>sent := [Claims 1000],
                           stdout := [StartParsing 1, ReceivedAllTravelSheets 1,
                                      SuccessfulRequests 0 0 1]\<rparr>, Inl IndexError)"
proof -
  have l: "get_all_travel_sheets_uuids no_sheets 1 default_limit (print (StartParsing 1) empty_world)
     = Some (empty_world\<lparr>sent := [Claims 1000],
                           stdout := [StartParsing 1, ReceivedAllTravelSheets 1]\<rparr>, Inr [])"
    by (subst get_all_travel_sheets_uuids.simps)
       (simp add: read_page_def session_get_def no_sheets_def ok_response_def default_limit_def
          print_def empty_world_def)
  from no_travel_sheets_index_error[where s = no_sheets and number = 1 and w = empty_world
         and rank = none_last and schedule = "[]" and schedule_b = "[]" and db = latin1_db] l
  show ?thesis by (simp add: print_def empty_world_def)
qed

section \<open>The listing\<close>

lemma many_sheets_full_page:
  "read_page many_sheets number 1000 w = Refetch (w\<lparr>sent := sent w @ [Claims 1000]\<rparr>)"
  by (simp add: read_page_def session_get_def many_sheets_def many_sheets_get_def ok_response_def)

lemma collect_uuids_replicate:
  "collect_uuids (replicate n (PDict [(pystr ''uuid'', PStr u)])) uuids
     = Inr (uuids @ replicate n (PStr u))"
proof (induction n arbitrary: uuids)
  case 0
  then show ?case by simp
next
  case (Suc n)
  show ?case by (simp add: Suc replicate_app_Cons_same)
qed

lemma many_sheets_doubled:
  "get_all_travel_sheets_uuids many_sheets number 2000 w
     = Some (w\<lparr>sent := sent w @ [Claims 2000],
                stdout := stdout w @ [ReceivedAllTravelSheets number]\<rparr>,
             Inr (replicate 1500 (PStr (pystr ''u''))))"
  by (subst get_all_travel_sheets_uuids.simps)
     (simp add: read_page_def session_get_def many_sheets_def many_sheets_get_def ok_response_def
        collect_uuids_replicate print_def)

lemma many_sheets_no_result:
  assumes "get_all_travel_sheets_uuids s n l v = Some y"
  shows "\<not> (s = many_sheets \<and> l = 1000)"
proof -
  have step: "\<not> (s = many_sheets \<and> l = 1000)"
    if ih: "\<And>s n l v y. rec s n l v = Some y \<Longrightarrow> \<not> (s = many_sheets \<and> l = 1000)"
    and eq: "(case read_page s n l v of
                Done w1 res \<Rightarrow> Some (w1, res)
              | Refetch w1 \<Rightarrow> rec s (l * 2) default_limit w1) = Some y"
    for rec s n l v y
  proof
    assume a: "s = many_sheets \<and> l = 1000"
    then have "read_page s n l v = Refetch (v\<lparr>sent := sent v @ [Claims 1000]\<rparr>)"
      by (simp add: many_sheets_full_page)
    then have "rec s (l * 2) default_limit (v\<lparr>sent := sent v @ [Claims 1000]\<rparr>) = Some y"
      using eq by simp
    from ih[OF this] show False using a by (simp add: default_limit_def)
  qed
  show ?thesis
    by (rule get_all_travel_sheets_uuids.raw_induct
          [where P = "\<lambda>s n l v y. \<not> (s = many_sheets \<and> l = 1000)", OF step assms])
qed

lemma many_sheets_never_returns:
  "get_all_travel_sheets_uuids many_sheets number 1000 w = None"
proof (cases "get_all_travel_sheets_uuids many_sheets number 1000 w")
  case None
  then show ?thesis .
next
  case (Some y)
  then show ?thesis using many_sheets_no_result by blast
qed

text \<open>
  C1 at the account with 1500 travel sheets. The first page, requested with the limit 1000,
  is full; the fetch starts again with \<open>number\<close> bound to 2000 and the limit 1000 once more,
  so the same full page comes back and the fetch never returns. Called with the limit 2000
  the function returns the 1500 identifiers after one request.
\<close>

theorem listing_restart_keeps_limit:
  "get_all_travel_sheets_uuids many_sheets number default_limit w
     = get_all_travel_sheets_uuids many_sheets (2 * default_limit) default_limit
         (w\<lparr>sent := sent w @ [Claims 1000]\<rparr>)
   \<and> get_all_travel_sheets_uuids many_sheets number default_limit w = None
   \<and> get_all_travel_sheets_uuids many_sheets number (2 * default_limit) w
     = Some (w\<lparr>sent := sent w @ [Claims 2000],
                stdout := stdout w @ [ReceivedAllTravelSheets number]\<rparr>,
             Inr (replicate 1500 (PStr (pystr ''u''))))"
proof -
  have "get_all_travel_sheets_uuids many_sheets number 1000 w
     = get_all_travel_sheets_uuids many_sheets 2000 1000 (w\<lparr>sent := sent w @ [Claims 1000]\<rparr>)"
    by (simp add: many_sheets_never_returns)
  then show ?thesis
    using many_sheets_never_returns[of number w] many_sheets_doubled[of number w]
    by (simp add: default_limit_def)
qed

end
